theory Spec2Isabelle
  imports Main "HOL-Library.AList"
begin

section \<open>The plan generator of app/main.py\<close>

text \<open>
  A shallow embedding of the workout-plan generator. Python's unbounded integers are
  \<open>int\<close>, strings are \<open>string\<close>, the dictionaries \<open>CHAR_ARCH\<close> and
  \<open>last_trained\<close> are association lists read with \<open>map_of\<close> (their keys are
  distinct, and Python dictionaries keep insertion order), and every place where the
  Python can raise is a branch that returns \<open>Inl\<close> of the error.
\<close>

datatype py_error = KeyError | IndexError | ValidationError

subsection \<open>Static tables\<close>

record exercise =
  ex_id :: string
  ex_name :: string
  ex_group :: string
  ex_equipment :: string

definition EXERCISES :: "exercise list" where
  "EXERCISES =
    [\<lparr>ex_id = ''pushup'', ex_name = ''Push-ups'', ex_group = ''chest'', ex_equipment = ''bodyweight''\<rparr>,
     \<lparr>ex_id = ''ohp-db'', ex_name = ''DB Shoulder Press'', ex_group = ''shoulders'', ex_equipment = ''dumbbells''\<rparr>,
     \<lparr>ex_id = ''bench'', ex_name = ''Bench Press'', ex_group = ''chest'', ex_equipment = ''gym''\<rparr>,
     \<lparr>ex_id = ''row'', ex_name = ''DB Row'', ex_group = ''back'', ex_equipment = ''dumbbells''\<rparr>,
     \<lparr>ex_id = ''pullup'', ex_name = ''Pull-ups'', ex_group = ''back'', ex_equipment = ''bodyweight''\<rparr>,
     \<lparr>ex_id = ''squat-bw'', ex_name = ''Bodyweight Squat'', ex_group = ''legs'', ex_equipment = ''bodyweight''\<rparr>,
     \<lparr>ex_id = ''goblet'', ex_name = ''Goblet Squat'', ex_group = ''legs'', ex_equipment = ''dumbbells''\<rparr>,
     \<lparr>ex_id = ''backsquat'', ex_name = ''Back Squat'', ex_group = ''legs'', ex_equipment = ''gym''\<rparr>,
     \<lparr>ex_id = ''plank'', ex_name = ''Plank'', ex_group = ''core'', ex_equipment = ''bodyweight''\<rparr>,
     \<lparr>ex_id = ''hkr'', ex_name = ''Hanging Knee Raise'', ex_group = ''core'', ex_equipment = ''gym''\<rparr>]"

record archetype =
  arch_style :: string
  arch_template :: "string list"
  arch_sets :: int
  arch_reps :: int

definition CHAR_ARCH :: "(string \<times> archetype) list" where
  "CHAR_ARCH =
    [(''goku'', \<lparr>arch_style = ''power'',
        arch_template = [''push'', ''pull'', ''legs'', ''full'', ''full''], arch_sets = 4, arch_reps = 5\<rparr>),
     (''luffy'', \<lparr>arch_style = ''endurance'',
        arch_template = [''full'', ''full'', ''legs'', ''full'', ''full''], arch_sets = 3, arch_reps = 12\<rparr>),
     (''asta'', \<lparr>arch_style = ''strength'',
        arch_template = [''push'', ''pull'', ''legs'', ''push'', ''pull''], arch_sets = 4, arch_reps = 6\<rparr>),
     (''saitama'', \<lparr>arch_style = ''full-body'',
        arch_template = [''full'', ''full'', ''full''], arch_sets = 3, arch_reps = 10\<rparr>)]"

text \<open>The values of the literal type \<open>DayFocus\<close>, which the \<open>DayPlan\<close> model validates.\<close>

definition DayFocus :: "string list" where
  "DayFocus = [''push'', ''pull'', ''legs'', ''full'']"

subsection \<open>Request and response models\<close>

record generate_request =
  req_character_id :: string
  req_days_per_week :: int
  req_level :: string
  req_goal :: string
  req_equipment :: string

record exercise_item =
  exercise_id :: string
  sets :: int
  reps :: int

record day_plan =
  week :: int
  day_index :: int
  focus :: string
  items :: "exercise_item list"

record plan_response =
  weeks :: int
  schedule :: "day_plan list"

text \<open>
  The constructor \<open>DayPlan(week=, day_index=, focus=, items=)\<close>: pydantic refuses a
  \<open>focus\<close> outside the literal type with a validation error.
\<close>

definition DayPlan :: "int \<Rightarrow> int \<Rightarrow> string \<Rightarrow> exercise_item list \<Rightarrow> py_error + day_plan" where
  "DayPlan w d f its =
     (if f \<in> set DayFocus then Inr \<lparr>week = w, day_index = d, focus = f, items = its\<rparr>
      else Inl ValidationError)"

subsection \<open>The generator object\<close>

record workout_plan =
  character_id :: string
  days :: int
  level :: string
  goal :: string
  equipment :: string
  last_trained :: "(string \<times> int) list"
  template :: "string list"

text \<open>Python's \<open>base[:n]\<close>: a negative bound counts from the end.\<close>

definition slice_to :: "'a list \<Rightarrow> int \<Rightarrow> 'a list" where
  "slice_to base n =
     (if 0 \<le> n then take (nat n) base else take (nat (int (length base) + n)) base)"

text \<open>
  \<open>_make_template\<close>. Every archetype of \<open>CHAR_ARCH\<close> is a non-empty dictionary, so
  \<open>if pref\<close> holds exactly when the character is known. \<open>base[-1]\<close> raises on an
  empty list.
\<close>

definition make_template :: "string \<Rightarrow> int \<Rightarrow> py_error + string list" where
  "make_template cid n =
     (case map_of CHAR_ARCH cid of
        Some pref \<Rightarrow>
          (let base = arch_template pref in
           if n \<le> int (length base) then Inr (slice_to base n)
           else if base = [] then Inl IndexError
           else Inr (base @ replicate (nat (n - int (length base))) (last base)))
      | None \<Rightarrow>
          (if n \<le> 3 then Inr [''full'', ''full'', ''full'']
           else if n = 4 then Inr [''push'', ''legs'', ''pull'', ''full'']
           else if n = 5 then Inr [''push'', ''pull'', ''legs'', ''full'', ''full'']
           else Inr [''push'', ''pull'', ''legs'', ''push'', ''pull'', ''legs'']))"

text \<open>\<open>WorkoutPlan.__init__\<close>.\<close>

definition WorkoutPlan :: "string \<Rightarrow> int \<Rightarrow> string \<Rightarrow> string \<Rightarrow> string \<Rightarrow> py_error + workout_plan" where
  "WorkoutPlan cid days_per_week lvl gl eq =
     (let n = max 1 (min 6 days_per_week) in
      case make_template cid n of
        Inl e \<Rightarrow> Inl e
      | Inr t \<Rightarrow>
          Inr \<lparr>character_id = cid, days = n, level = lvl, goal = gl, equipment = eq,
               last_trained = [(''chest'', -999), (''back'', -999), (''legs'', -999),
                               (''shoulders'', -999), (''arms'', -999), (''core'', -999)],
               template = t\<rparr>)"

text \<open>\<open>_sets_reps\<close>.\<close>

definition sets_reps :: "workout_plan \<Rightarrow> int \<times> int" where
  "sets_reps self =
     (let char = map_of CHAR_ARCH (character_id self);
          base_sets = (case char of
                         Some a \<Rightarrow> arch_sets a
                       | None \<Rightarrow> (if level self = ''beginner'' then 3 else 4));
          char_reps = map_option arch_reps char;
          r = (if goal self = ''strength'' then
                 (case char_reps of None \<Rightarrow> 4 | Some c \<Rightarrow> min c 6)
               else if goal self = ''hypertrophy'' then
                 (case char_reps of None \<Rightarrow> 8 | Some c \<Rightarrow> max c 8)
               else
                 (case char_reps of None \<Rightarrow> 10 | Some c \<Rightarrow> max c 10))
      in (base_sets, r))"

text \<open>\<open>_focus_groups\<close>.\<close>

definition focus_groups :: "string \<Rightarrow> string list" where
  "focus_groups f =
     (if f = ''push'' then [''chest'', ''shoulders'', ''core'']
      else if f = ''pull'' then [''back'', ''core'']
      else if f = ''legs'' then [''legs'', ''core'']
      else [''chest'', ''back'', ''legs'', ''shoulders'', ''core''])"

text \<open>\<open>_filtered\<close>: the loop over the catalog, with the pool as accumulator.\<close>

fun filtered_loop :: "string \<Rightarrow> string \<Rightarrow> exercise list \<Rightarrow> exercise list \<Rightarrow> exercise list" where
  "filtered_loop eq g [] pool = pool"
| "filtered_loop eq g (ex # rest) pool =
     (if ex_group ex \<noteq> g then filtered_loop eq g rest pool
      else if eq = ''gym'' then filtered_loop eq g rest (pool @ [ex])
      else if ex_equipment ex = eq \<or> ex_equipment ex = ''bodyweight''
        then filtered_loop eq g rest (pool @ [ex])
      else filtered_loop eq g rest pool)"

definition filtered :: "workout_plan \<Rightarrow> string \<Rightarrow> exercise list" where
  "filtered self g = filtered_loop (equipment self) g EXERCISES []"

text \<open>
  \<open>random.choice\<close>. The random source is a parameter: \<open>rng k\<close> is the number the
  \<open>k\<close>-th draw of a call to \<open>generate\<close> produces, and the choice is the pool's entry at
  that number modulo the pool's length, so every entry can be chosen. An empty pool
  raises.
\<close>

definition choice :: "(nat \<Rightarrow> nat) \<Rightarrow> nat \<Rightarrow> 'a list \<Rightarrow> py_error + 'a" where
  "choice rng k pool =
     (if pool = [] then Inl IndexError else Inr (pool ! (rng k mod length pool)))"

text \<open>
  \<open>groups.sort(key=lambda g: self.last_trained[g])\<close>: the keys are read first (a
  missing key raises), then the list is sorted by them, stably and ascending.
\<close>

definition sort_groups :: "workout_plan \<Rightarrow> string list \<Rightarrow> py_error + string list" where
  "sort_groups self groups =
     (if list_all (\<lambda>g. map_of (last_trained self) g \<noteq> None) groups
      then Inr (sort_key (\<lambda>g. the (map_of (last_trained self) g)) groups)
      else Inl KeyError)"

text \<open>
  The loop \<open>for g in groups\<close> of \<open>generate\<close>. Its state is the generator object (whose
  \<open>last_trained\<close> it updates), the number of draws made so far and the day's items;
  \<open>cdi\<close> is \<open>current_day_index\<close>.
\<close>

fun groups_loop ::
  "(nat \<Rightarrow> nat) \<Rightarrow> int \<Rightarrow> int \<Rightarrow> int \<Rightarrow> string list \<Rightarrow>
   workout_plan \<times> nat \<times> exercise_item list \<Rightarrow>
   py_error + workout_plan \<times> nat \<times> exercise_item list" where
  "groups_loop rng ss rr cdi [] (self, k, its) = Inr (self, k, its)"
| "groups_loop rng ss rr cdi (g # gs) (self, k, its) =
     (case map_of (last_trained self) g of
        None \<Rightarrow> Inl KeyError
      | Some lt \<Rightarrow>
          if cdi - lt < 2 then groups_loop rng ss rr cdi gs (self, k, its)
          else if filtered self g = [] then groups_loop rng ss rr cdi gs (self, k, its)
          else
            (case choice rng k (filtered self g) of
               Inl e \<Rightarrow> Inl e
             | Inr c \<Rightarrow>
                 (let its' = its @ [\<lparr>exercise_id = ex_id c, sets = ss, reps = rr\<rparr>];
                      self' = self\<lparr>last_trained := AList.update g cdi (last_trained self)\<rparr>
                  in if 5 \<le> length its' then Inr (self', Suc k, its')
                     else groups_loop rng ss rr cdi gs (self', Suc k, its'))))"

text \<open>The state of the two outer loops of \<open>generate\<close>.\<close>

record gen_state =
  self_of :: workout_plan
  draws :: nat
  current_day_index :: int
  sched :: "day_plan list"

text \<open>The body of the loop \<open>for d, focus in enumerate(self.template)\<close>.\<close>

definition build_day ::
  "(nat \<Rightarrow> nat) \<Rightarrow> int \<Rightarrow> int \<Rightarrow> int \<Rightarrow> nat \<times> string \<Rightarrow> gen_state \<Rightarrow> py_error + gen_state" where
  "build_day rng ss rr w df st =
     (case sort_groups (self_of st) (focus_groups (snd df)) of
        Inl e \<Rightarrow> Inl e
      | Inr groups \<Rightarrow>
          (case groups_loop rng ss rr (current_day_index st) groups (self_of st, draws st, []) of
             Inl e \<Rightarrow> Inl e
           | Inr (self', k', its) \<Rightarrow>
               (case DayPlan w (int (fst df)) (snd df) its of
                  Inl e \<Rightarrow> Inl e
                | Inr dp \<Rightarrow>
                    Inr \<lparr>self_of = self', draws = k',
                         current_day_index = current_day_index st + 1,
                         sched = sched st @ [dp]\<rparr>)))"

fun days_loop ::
  "(nat \<Rightarrow> nat) \<Rightarrow> int \<Rightarrow> int \<Rightarrow> int \<Rightarrow> (nat \<times> string) list \<Rightarrow> gen_state \<Rightarrow> py_error + gen_state" where
  "days_loop rng ss rr w [] st = Inr st"
| "days_loop rng ss rr w (df # rest) st =
     (case build_day rng ss rr w df st of
        Inl e \<Rightarrow> Inl e
      | Inr st' \<Rightarrow> days_loop rng ss rr w rest st')"

text \<open>The loop \<open>for w in range(1, weeks + 1)\<close>, over the list of the week numbers.\<close>

fun weeks_loop ::
  "(nat \<Rightarrow> nat) \<Rightarrow> int \<Rightarrow> int \<Rightarrow> int list \<Rightarrow> gen_state \<Rightarrow> py_error + gen_state" where
  "weeks_loop rng ss rr [] st = Inr st"
| "weeks_loop rng ss rr (w # ws) st =
     (case days_loop rng ss rr w (enumerate 0 (template (self_of st))) st of
        Inl e \<Rightarrow> Inl e
      | Inr st' \<Rightarrow> weeks_loop rng ss rr ws st')"

text \<open>
  \<open>generate\<close> returns the schedule; the generator object it has mutated is returned
  with it.
\<close>

definition generate ::
  "(nat \<Rightarrow> nat) \<Rightarrow> workout_plan \<Rightarrow> int \<Rightarrow> py_error + workout_plan \<times> day_plan list" where
  "generate rng self n =
     (case weeks_loop rng (fst (sets_reps self)) (snd (sets_reps self)) [1..n]
             \<lparr>self_of = self, draws = 0, current_day_index = 0, sched = []\<rparr> of
        Inl e \<Rightarrow> Inl e
      | Inr st \<Rightarrow> Inr (self_of st, sched st))"

text \<open>The handler of \<open>POST /generate\<close>.\<close>

definition generate_plan :: "(nat \<Rightarrow> nat) \<Rightarrow> generate_request \<Rightarrow> py_error + plan_response" where
  "generate_plan rng req =
     (case WorkoutPlan (req_character_id req) (req_days_per_week req) (req_level req)
             (req_goal req) (req_equipment req) of
        Inl e \<Rightarrow> Inl e
      | Inr gen \<Rightarrow>
          (case generate rng gen 4 of
             Inl e \<Rightarrow> Inl e
           | Inr (gen', s) \<Rightarrow> Inr \<lparr>weeks = 4, schedule = s\<rparr>))"

section \<open>Notions used to state the properties\<close>

text \<open>
  The definitions of this section are not functions of the program: they name what the
  properties speak of (the catalog exercise an item refers to, the muscle group it
  trains, the days on which a group is trained) and the invariants of the loops.
\<close>

text \<open>
  The test \<open>_filtered\<close> applies to a catalog entry: the entry trains the group, and the
  generator's equipment is the gym, or the entry needs that equipment or none.
\<close>

definition eligible :: "string \<Rightarrow> string \<Rightarrow> exercise \<Rightarrow> bool" where
  "eligible eq g ex =
     (ex_group ex = g \<and> (eq = ''gym'' \<or> ex_equipment ex = eq \<or> ex_equipment ex = ''bodyweight''))"

text \<open>The catalog entry an \<open>exercise_id\<close> refers to (the first with that id).\<close>

definition exercise_by_id :: "string \<Rightarrow> exercise option" where
  "exercise_by_id i = find (\<lambda>ex. ex_id ex = i) EXERCISES"

text \<open>The muscle group an item trains: the group of the catalog entry it refers to.\<close>

definition item_group :: "exercise_item \<Rightarrow> string option" where
  "item_group it = map_option ex_group (exercise_by_id (exercise_id it))"

text \<open>
  The item one pass of the loop over the groups appends, and the generator object after
  the pass: the two updates the body of the loop makes when it picks an exercise.
\<close>

definition new_item :: "(nat \<Rightarrow> nat) \<Rightarrow> int \<Rightarrow> int \<Rightarrow> workout_plan \<Rightarrow> nat \<Rightarrow> string \<Rightarrow> exercise_item" where
  "new_item rng ss rr self k g =
     \<lparr>exercise_id = ex_id (filtered self g ! (rng k mod length (filtered self g))),
      sets = ss, reps = rr\<rparr>"

definition train :: "string \<Rightarrow> int \<Rightarrow> workout_plan \<Rightarrow> workout_plan" where
  "train g cdi self = self\<lparr>last_trained := AList.update g cdi (last_trained self)\<rparr>"

text \<open>Every group a focus can resolve to is a key of \<open>last_trained\<close>.\<close>

definition tracked :: "workout_plan \<Rightarrow> bool" where
  "tracked self =
     list_all (\<lambda>g. map_of (last_trained self) g \<noteq> None)
       [''chest'', ''back'', ''legs'', ''shoulders'', ''core'']"

text \<open>
  The state in which the loops of \<open>generate\<close> cannot raise: the groups are tracked
  and every focus of the template is one of \<open>DayFocus\<close>.
\<close>

definition well_formed :: "gen_state \<Rightarrow> bool" where
  "well_formed st = (tracked (self_of st) \<and> list_all (\<lambda>f. f \<in> set DayFocus) (template (self_of st)))"

text \<open>
  An item picked for group \<open>g\<close>: it carries the plan's sets and reps, and its id is the
  id of a catalog entry that is eligible for \<open>g\<close>.
\<close>

definition item_ok :: "string \<Rightarrow> int \<Rightarrow> int \<Rightarrow> string \<Rightarrow> exercise_item \<Rightarrow> bool" where
  "item_ok eq ss rr g it =
     (sets it = ss \<and> reps it = rr \<and>
      list_ex (\<lambda>ex. eligible eq g ex \<and> exercise_id it = ex_id ex) EXERCISES)"

text \<open>
  An item the loop over the groups has added on day \<open>cdi\<close>: it was picked for a group
  of the list that was last trained at least two days before, and that group's entry of
  \<open>last_trained\<close> is now \<open>cdi\<close>.
\<close>

definition picked ::
  "workout_plan \<Rightarrow> workout_plan \<Rightarrow> int \<Rightarrow> int \<Rightarrow> int \<Rightarrow> string list \<Rightarrow> exercise_item \<Rightarrow> bool" where
  "picked self self' ss rr cdi gs it =
     (\<exists>g\<in>set gs. \<exists>v. item_ok (equipment self) ss rr g it \<and>
        map_of (last_trained self) g = Some v \<and> 2 \<le> cdi - v \<and>
        map_of (last_trained self') g = Some cdi)"

text \<open>What a day plan says of its place in the schedule, and the places of one week.\<close>

definition header :: "day_plan \<Rightarrow> int \<times> int \<times> string" where
  "header p = (week p, day_index p, focus p)"

definition week_block :: "string list \<Rightarrow> int \<Rightarrow> (int \<times> int \<times> string) list" where
  "week_block t w = map (\<lambda>df. (w, int (fst df), snd df)) (enumerate 0 t)"

text \<open>
  Group \<open>g\<close> is trained on global day \<open>i\<close> of a schedule: the day plan at position
  \<open>i\<close> holds an item of that group. Positions count the days of all weeks in order.
\<close>

definition trained_on :: "day_plan list \<Rightarrow> nat \<Rightarrow> string \<Rightarrow> bool" where
  "trained_on s i g = (i < length s \<and> list_ex (\<lambda>it. item_group it = Some g) (items (s ! i)))"

text \<open>
  What holds of every day plan of a schedule: at most five items, no two of the same
  group, and each picked for a group of the day's focus.
\<close>

definition day_ok :: "string \<Rightarrow> int \<Rightarrow> int \<Rightarrow> day_plan \<Rightarrow> bool" where
  "day_ok eq ss rr p =
     (length (items p) \<le> 5 \<and> distinct (map item_group (items p)) \<and>
      list_all (\<lambda>it. list_ex (\<lambda>g. item_ok eq ss rr g it) (focus_groups (focus p))) (items p))"

text \<open>
  The invariant of the recovery rule, between two days: the day counter is the number of
  days scheduled; every entry of \<open>last_trained\<close> lies before it; a group trained on day
  \<open>i\<close> has an entry of at least \<open>i\<close>; and no group is trained on two days in a row.
\<close>

definition recovering :: "gen_state \<Rightarrow> bool" where
  "recovering st =
     (current_day_index st = int (length (sched st)) \<and>
      (\<forall>g v. map_of (last_trained (self_of st)) g = Some v \<longrightarrow> v < current_day_index st) \<and>
      (\<forall>g i. trained_on (sched st) i g \<longrightarrow>
         (\<exists>v. map_of (last_trained (self_of st)) g = Some v \<and> int i \<le> v)) \<and>
      (\<forall>g i. trained_on (sched st) i g \<longrightarrow> \<not> trained_on (sched st) (Suc i) g))"

section \<open>Properties of the generator\<close>

subsection \<open>The catalog\<close>

lemma filtered_loop_filter:
  "filtered_loop eq g xs pool = pool @ filter (eligible eq g) xs"
  by (induction xs arbitrary: pool) (auto simp: eligible_def)

lemma filtered_filter: "filtered self g = filter (eligible (equipment self) g) EXERCISES"
  by (simp add: filtered_def filtered_loop_filter)

lemma CHAR_ARCH_templates:
  "map_of CHAR_ARCH cid = Some a \<Longrightarrow>
     arch_template a \<noteq> [] \<and> set (arch_template a) \<subseteq> set DayFocus \<and> length (arch_template a) \<le> 6"
  by (auto simp: CHAR_ARCH_def DayFocus_def split: if_splits)

lemma exercise_ids_found:
  "list_all (\<lambda>ex. exercise_by_id (ex_id ex) = Some ex) EXERCISES"
  by (simp add: exercise_by_id_def EXERCISES_def)

lemma exercise_by_id_catalog:
  "ex \<in> set EXERCISES \<Longrightarrow> exercise_by_id (ex_id ex) = Some ex"
  using exercise_ids_found by (simp add: list_all_iff)

lemma filtered_member:
  "ex \<in> set (filtered self g) \<Longrightarrow>
     ex \<in> set EXERCISES \<and> eligible (equipment self) g ex \<and> exercise_by_id (ex_id ex) = Some ex"
  by (simp add: filtered_filter exercise_by_id_catalog)

subsection \<open>The template and the constructor\<close>

lemma make_template_known:
  assumes "map_of CHAR_ARCH cid = Some a" and "1 \<le> n"
  shows "make_template cid n =
           Inr (if nat n \<le> length (arch_template a) then take (nat n) (arch_template a)
                else arch_template a @ replicate (nat n - length (arch_template a)) (last (arch_template a)))"
proof -
  have ne: "arch_template a \<noteq> []" using CHAR_ARCH_templates [OF assms(1)] by simp
  have "(n \<le> int (length (arch_template a))) = (nat n \<le> length (arch_template a))"
    using assms(2) by linarith
  moreover have "nat (n - int (length (arch_template a))) = nat n - length (arch_template a)"
    using assms(2) by linarith
  ultimately show ?thesis
    using assms ne by (simp add: make_template_def slice_to_def Let_def)
qed

lemma make_template_unknown:
  assumes "map_of CHAR_ARCH cid = None"
  shows "make_template cid n =
           Inr (if n \<le> 3 then [''full'', ''full'', ''full'']
                else if n = 4 then [''push'', ''legs'', ''pull'', ''full'']
                else if n = 5 then [''push'', ''pull'', ''legs'', ''full'', ''full'']
                else [''push'', ''pull'', ''legs'', ''push'', ''pull'', ''legs''])"
  using assms by (simp add: make_template_def)

lemma make_template_total:
  assumes "1 \<le> n"
  shows "\<exists>t. make_template cid n = Inr t \<and> set t \<subseteq> set DayFocus"
proof (cases "map_of CHAR_ARCH cid")
  case None
  then show ?thesis by (simp add: make_template_unknown DayFocus_def)
next
  case (Some a)
  have ne: "arch_template a \<noteq> []" and sub: "set (arch_template a) \<subseteq> set DayFocus"
    using CHAR_ARCH_templates [OF Some] by simp_all
  have "set (take (nat n) (arch_template a)) \<subseteq> set DayFocus"
    using sub set_take_subset by fastforce
  moreover have "last (arch_template a) \<in> set DayFocus"
    using ne sub last_in_set by blast
  ultimately show ?thesis
    using sub by (auto simp: make_template_known [OF Some assms])
qed

lemma WorkoutPlan_eq:
  "\<exists>t. make_template cid (max 1 (min 6 dpw)) = Inr t \<and> set t \<subseteq> set DayFocus \<and>
       WorkoutPlan cid dpw lvl gl eq =
         Inr \<lparr>character_id = cid, days = max 1 (min 6 dpw), level = lvl, goal = gl, equipment = eq,
              last_trained = [(''chest'', -999), (''back'', -999), (''legs'', -999),
                              (''shoulders'', -999), (''arms'', -999), (''core'', -999)],
              template = t\<rparr>"
proof -
  obtain t where "make_template cid (max 1 (min 6 dpw)) = Inr t" "set t \<subseteq> set DayFocus"
    using make_template_total [of "max 1 (min 6 dpw)" cid] by auto
  then show ?thesis by (simp add: WorkoutPlan_def Let_def)
qed

subsection \<open>The loop over the groups\<close>

text \<open>
  One pass of the loop, with the two tests that skip a group merged and the test of the
  cap made before the item is appended. The defining equation is then taken out of the
  simplifier's rules, so that proofs unfold the loop one pass at a time.
\<close>

lemma groups_loop_step:
  "groups_loop rng ss rr cdi (g # gs) (self, k, its) =
     (case map_of (last_trained self) g of
        None \<Rightarrow> Inl KeyError
      | Some lt \<Rightarrow>
          if cdi - lt < 2 \<or> filtered self g = [] then groups_loop rng ss rr cdi gs (self, k, its)
          else if 4 \<le> length its
            then Inr (train g cdi self, Suc k, its @ [new_item rng ss rr self k g])
          else groups_loop rng ss rr cdi gs
                 (train g cdi self, Suc k, its @ [new_item rng ss rr self k g]))"
  by (auto simp: choice_def new_item_def train_def Let_def split: option.splits)

declare groups_loop.simps(2) [simp del]

text \<open>
  A property of the loop's state that holds at the start and is kept by every pass that
  picks an exercise holds of the state the loop returns.
\<close>

lemma groups_loop_invariant:
  assumes "groups_loop rng ss rr cdi gs (self, k, its) = Inr (self', k', its')"
    and "P self k its"
    and "\<And>g self k its lt. g \<in> set gs \<Longrightarrow> P self k its \<Longrightarrow>
            map_of (last_trained self) g = Some lt \<Longrightarrow> 2 \<le> cdi - lt \<Longrightarrow> filtered self g \<noteq> [] \<Longrightarrow>
            P (train g cdi self) (Suc k) (its @ [new_item rng ss rr self k g])"
  shows "P self' k' its'"
  using assms
proof (induction gs arbitrary: self k its)
  case Nil
  then show ?case by simp
next
  case (Cons g gs)
  note step = Cons.prems(3)
  obtain lt where lt: "map_of (last_trained self) g = Some lt"
    using Cons.prems(1) by (auto simp: groups_loop_step split: option.splits)
  show ?case
  proof (cases "cdi - lt < 2 \<or> filtered self g = []")
    case True
    then have "groups_loop rng ss rr cdi gs (self, k, its) = Inr (self', k', its')"
      using Cons.prems(1) lt by (simp add: groups_loop_step)
    then show ?thesis
      using Cons.IH Cons.prems(2) step by (metis list.set_intros(2))
  next
    case False
    then have P': "P (train g cdi self) (Suc k) (its @ [new_item rng ss rr self k g])"
      using step [of g self k its lt] Cons.prems(2) lt by simp
    show ?thesis
    proof (cases "4 \<le> length its")
      case True
      then show ?thesis using Cons.prems(1) lt False P' by (simp add: groups_loop_step)
    next
      case short: False
      then have "groups_loop rng ss rr cdi gs
                   (train g cdi self, Suc k, its @ [new_item rng ss rr self k g]) = Inr (self', k', its')"
        using Cons.prems(1) lt False by (simp add: groups_loop_step)
      then show ?thesis
        using Cons.IH P' step by (metis list.set_intros(2))
    qed
  qed
qed

lemma groups_loop_total:
  assumes "\<forall>g\<in>set gs. map_of (last_trained self) g \<noteq> None"
  shows "\<exists>self' k' its'. groups_loop rng ss rr cdi gs (self, k, its) = Inr (self', k', its')"
  using assms
proof (induction gs arbitrary: self k its)
  case Nil
  then show ?case by simp
next
  case (Cons g gs)
  then obtain lt where lt: "map_of (last_trained self) g = Some lt" by auto
  have keep: "\<forall>h\<in>set gs. map_of (last_trained (train g cdi self)) h \<noteq> None"
    using Cons.prems by (simp add: train_def update_conv')
  have rest: "\<forall>h\<in>set gs. map_of (last_trained self) h \<noteq> None"
    using Cons.prems by simp
  show ?case
    using Cons.IH [OF rest] Cons.IH [OF keep] lt by (simp add: groups_loop_step)
qed

lemma groups_loop_length:
  assumes "groups_loop rng ss rr cdi gs (self, k, its) = Inr (self', k', its')"
    and "length its \<le> 4"
  shows "length its' \<le> 5"
  using assms
proof (induction gs arbitrary: self k its)
  case Nil
  then show ?case by simp
next
  case (Cons g gs)
  then show ?case
    by (auto simp: groups_loop_step split: option.splits if_splits)
qed

subsection \<open>Days and weeks\<close>

lemma focus_groups_tracked:
  "tracked self \<Longrightarrow> g \<in> set (focus_groups f) \<Longrightarrow> map_of (last_trained self) g \<noteq> None"
  by (auto simp: tracked_def focus_groups_def split: if_splits)

lemma tracked_train: "tracked self \<Longrightarrow> tracked (train g cdi self)"
  by (simp add: tracked_def train_def update_conv')

lemma train_frame:
  "train g cdi (self\<lparr>last_trained := lt\<rparr>) = self\<lparr>last_trained := AList.update g cdi lt\<rparr>"
  by (simp add: train_def)

lemma groups_loop_frame:
  assumes "groups_loop rng ss rr cdi gs (self, k, its) = Inr (self', k', its')"
  shows "\<exists>lt. self' = self\<lparr>last_trained := lt\<rparr>"
proof -
  have "self = self\<lparr>last_trained := last_trained self\<rparr>" by simp
  then have start: "\<exists>lt. self = self\<lparr>last_trained := lt\<rparr>" by blast
  show ?thesis
    by (rule groups_loop_invariant [OF assms, where P = "\<lambda>s k its. \<exists>lt. s = self\<lparr>last_trained := lt\<rparr>"])
       (use start in \<open>auto simp: train_def\<close>)
qed

lemma groups_loop_tracked:
  assumes "groups_loop rng ss rr cdi gs (self, k, its) = Inr (self', k', its')"
    and "tracked self"
  shows "tracked self'"
  by (rule groups_loop_invariant [OF assms(1), where P = "\<lambda>s k its. tracked s"])
     (use assms(2) in \<open>auto simp: tracked_train\<close>)

lemma sort_groups_ok:
  assumes "tracked self"
  shows "sort_groups self (focus_groups f) =
           Inr (sort_key (\<lambda>g. the (map_of (last_trained self) g)) (focus_groups f))"
  using focus_groups_tracked [OF assms] by (simp add: sort_groups_def list_all_iff)

lemma sort_groups_set:
  "sort_groups self gs = Inr gs' \<Longrightarrow> set gs' = set gs"
  by (auto simp: sort_groups_def split: if_splits)

text \<open>
  The list the loop runs over holds the groups of the focus in ascending order of their
  last training day, groups of the same day in the order \<open>_focus_groups\<close> lists them.
\<close>

lemma sort_groups_sorted:
  assumes "sort_groups self gs = Inr gs'"
  shows "sorted (map (\<lambda>g. the (map_of (last_trained self) g)) gs')"
    and "length gs' = length gs"
    and "filter (\<lambda>g. the (map_of (last_trained self) g) = v) gs' =
         filter (\<lambda>g. the (map_of (last_trained self) g) = v) gs"
proof -
  have gs': "gs' = sort_key (\<lambda>g. the (map_of (last_trained self) g)) gs"
    using assms by (auto simp: sort_groups_def split: if_splits)
  show "sorted (map (\<lambda>g. the (map_of (last_trained self) g)) gs')"
    by (simp add: gs')
  show "length gs' = length gs" by (simp add: gs')
  show "filter (\<lambda>g. the (map_of (last_trained self) g) = v) gs' =
         filter (\<lambda>g. the (map_of (last_trained self) g) = v) gs"
    unfolding gs' by (rule sort_key_stable)
qed

lemma build_day_Inr:
  assumes "build_day rng ss rr w df st = Inr st'"
  shows "\<exists>groups self' k' its.
           sort_groups (self_of st) (focus_groups (snd df)) = Inr groups \<and>
           groups_loop rng ss rr (current_day_index st) groups (self_of st, draws st, []) =
             Inr (self', k', its) \<and>
           snd df \<in> set DayFocus \<and>
           st' = \<lparr>self_of = self', draws = k', current_day_index = current_day_index st + 1,
                  sched = sched st @ [\<lparr>week = w, day_index = int (fst df), focus = snd df, items = its\<rparr>]\<rparr>"
  using assms
  by (auto simp: build_day_def DayPlan_def split: sum.splits if_splits)

lemma build_day_total:
  assumes "tracked (self_of st)" and "snd df \<in> set DayFocus"
  shows "\<exists>st'. build_day rng ss rr w df st = Inr st'"
proof -
  let ?gs = "sort_key (\<lambda>g. the (map_of (last_trained (self_of st)) g)) (focus_groups (snd df))"
  have "\<forall>g\<in>set ?gs. map_of (last_trained (self_of st)) g \<noteq> None"
    using focus_groups_tracked [OF assms(1)] by simp
  then obtain self' k' its where
    "groups_loop rng ss rr (current_day_index st) ?gs (self_of st, draws st, []) = Inr (self', k', its)"
    using groups_loop_total by blast
  then show ?thesis
    using assms by (simp add: build_day_def sort_groups_ok DayPlan_def)
qed

lemma build_day_well_formed:
  assumes "build_day rng ss rr w df st = Inr st'" and "well_formed st"
  shows "well_formed st' \<and> template (self_of st') = template (self_of st)"
proof -
  obtain groups self' k' its where
    loop: "groups_loop rng ss rr (current_day_index st) groups (self_of st, draws st, []) =
             Inr (self', k', its)"
    and st': "self_of st' = self'"
    using build_day_Inr [OF assms(1)] by force
  obtain lt where "self' = (self_of st)\<lparr>last_trained := lt\<rparr>"
    using groups_loop_frame [OF loop] by blast
  moreover have "tracked self'"
    using groups_loop_tracked [OF loop] assms(2) by (simp add: well_formed_def)
  ultimately show ?thesis
    using assms(2) st' by (simp add: well_formed_def)
qed

lemma days_loop_invariant:
  assumes "days_loop rng ss rr w dfs st = Inr st'"
    and "Q st"
    and "\<And>df st st'. Q st \<Longrightarrow> build_day rng ss rr w df st = Inr st' \<Longrightarrow> Q st'"
  shows "Q st'"
  using assms
proof (induction dfs arbitrary: st)
  case Nil
  then show ?case by simp
next
  case (Cons df dfs)
  from Cons.prems(1) obtain st1 where day: "build_day rng ss rr w df st = Inr st1"
    and rest: "days_loop rng ss rr w dfs st1 = Inr st'"
    by (auto split: sum.splits)
  have "Q st1" using Cons.prems(2,3) day by blast
  then show ?case using Cons.IH [OF rest] Cons.prems(3) by blast
qed

lemma weeks_loop_invariant:
  assumes "weeks_loop rng ss rr ws st = Inr st'"
    and "Q st"
    and "\<And>w df st st'. Q st \<Longrightarrow> build_day rng ss rr w df st = Inr st' \<Longrightarrow> Q st'"
  shows "Q st'"
  using assms
proof (induction ws arbitrary: st)
  case Nil
  then show ?case by simp
next
  case (Cons w ws)
  from Cons.prems(1) obtain st1 where
    week: "days_loop rng ss rr w (enumerate 0 (template (self_of st))) st = Inr st1"
    and rest: "weeks_loop rng ss rr ws st1 = Inr st'"
    by (auto split: sum.splits)
  have "Q st1"
    by (rule days_loop_invariant [where Q = Q, OF week Cons.prems(2)]) (rule Cons.prems(3))
  then show ?case using Cons.IH [OF rest] Cons.prems(3) by blast
qed

lemma days_loop_total:
  assumes "well_formed st" and "list_all (\<lambda>df. snd df \<in> set DayFocus) dfs"
  shows "\<exists>st'. days_loop rng ss rr w dfs st = Inr st'"
  using assms
proof (induction dfs arbitrary: st)
  case Nil
  then show ?case by simp
next
  case (Cons df dfs)
  have "tracked (self_of st)" and "snd df \<in> set DayFocus"
    using Cons.prems by (simp_all add: well_formed_def)
  then obtain st1 where day: "build_day rng ss rr w df st = Inr st1"
    using build_day_total [of st df rng ss rr w] by blast
  have "well_formed st1" using build_day_well_formed [OF day Cons.prems(1)] by simp
  then show ?case using Cons.IH [of st1] Cons.prems(2) day by simp
qed

lemma days_loop_well_formed:
  assumes "days_loop rng ss rr w dfs st = Inr st'" and "well_formed st"
  shows "well_formed st' \<and> template (self_of st') = template (self_of st)"
proof -
  have "well_formed st' \<and> template (self_of st') = template (self_of st)"
    by (rule days_loop_invariant [OF assms(1),
          where Q = "\<lambda>s. well_formed s \<and> template (self_of s) = template (self_of st)"])
       (use assms(2) build_day_well_formed in \<open>auto\<close>)
  then show ?thesis .
qed

lemma enumerate_foci:
  "list_all (\<lambda>f. f \<in> set DayFocus) t \<Longrightarrow> list_all (\<lambda>df. snd df \<in> set DayFocus) (enumerate n t)"
  by (induction t arbitrary: n) auto

lemma weeks_loop_total:
  assumes "well_formed st"
  shows "\<exists>st'. weeks_loop rng ss rr ws st = Inr st'"
  using assms
proof (induction ws arbitrary: st)
  case Nil
  then show ?case by simp
next
  case (Cons w ws)
  have "list_all (\<lambda>df. snd df \<in> set DayFocus) (enumerate 0 (template (self_of st)))"
    using Cons.prems by (simp add: well_formed_def enumerate_foci)
  then obtain st1 where
    week: "days_loop rng ss rr w (enumerate 0 (template (self_of st))) st = Inr st1"
    using days_loop_total [OF Cons.prems] by blast
  have "well_formed st1" using days_loop_well_formed [OF week Cons.prems] by simp
  then show ?case using Cons.IH [of st1] week by simp
qed

subsection \<open>The items of a day\<close>

lemma new_item_ok:
  assumes "filtered self g \<noteq> []"
  shows "item_ok (equipment self) ss rr g (new_item rng ss rr self k g)"
proof -
  let ?ex = "filtered self g ! (rng k mod length (filtered self g))"
  have "?ex \<in> set (filtered self g)" using assms by simp
  then have "?ex \<in> set EXERCISES" "eligible (equipment self) g ?ex"
    using filtered_member by blast+
  then show ?thesis by (auto simp: item_ok_def new_item_def list_ex_iff)
qed

lemma item_ok_group: "item_ok eq ss rr g it \<Longrightarrow> item_group it = Some g"
  by (auto simp: item_ok_def item_group_def list_ex_iff eligible_def exercise_by_id_catalog)

lemma equipment_train [simp]: "equipment (train g cdi self) = equipment self"
  by (simp add: train_def)

lemma map_of_train [simp]:
  "map_of (last_trained (train g cdi self)) = (map_of (last_trained self))(g \<mapsto> cdi)"
  by (simp add: train_def update_conv')

lemma groups_loop_items:
  assumes "groups_loop rng ss rr cdi gs (self, k, its) = Inr (self', k', its')"
  shows "(\<forall>g. map_of (last_trained self') g = Some cdi \<or>
              map_of (last_trained self') g = map_of (last_trained self) g) \<and>
         (\<forall>it\<in>set its'. it \<in> set its \<or> picked self self' ss rr cdi gs it)"
proof -
  let ?P = "\<lambda>s (k::nat) i.
     equipment s = equipment self \<and>
     (\<forall>g. map_of (last_trained s) g = Some cdi \<or>
          map_of (last_trained s) g = map_of (last_trained self) g) \<and>
     (\<forall>it\<in>set i. it \<in> set its \<or> picked self s ss rr cdi gs it)"
  have "?P self' k' its'"
  proof (rule groups_loop_invariant [OF assms, where P = ?P], goal_cases)
    case 1
    then show ?case by simp
  next
    case (2 g s k i lt)
    have eq: "equipment s = equipment self" using 2(2) by simp
    have frame: "\<forall>h. map_of (last_trained s) h = Some cdi \<or>
                     map_of (last_trained s) h = map_of (last_trained self) h"
      using 2(2) by simp
    have olds: "\<forall>it\<in>set i. it \<in> set its \<or> picked self s ss rr cdi gs it"
      using 2(2) by simp
    have "lt \<noteq> cdi" using 2(4) by auto
    then have "map_of (last_trained s) g \<noteq> Some cdi" using 2(3) by simp
    then have old: "map_of (last_trained self) g = Some lt"
      using frame 2(3) by metis
    have ok: "item_ok (equipment self) ss rr g (new_item rng ss rr s k g)"
      using new_item_ok [OF 2(5)] eq by simp
    have "map_of (last_trained (train g cdi s)) g = Some cdi" by simp
    with ok old 2(1,4) have new: "picked self (train g cdi s) ss rr cdi gs (new_item rng ss rr s k g)"
      unfolding picked_def by blast
    have keep: "picked self (train g cdi s) ss rr cdi gs it" if "picked self s ss rr cdi gs it" for it
    proof -
      from that obtain h v where h: "h \<in> set gs" "item_ok (equipment self) ss rr h it"
        "map_of (last_trained self) h = Some v" "2 \<le> cdi - v" "map_of (last_trained s) h = Some cdi"
        unfolding picked_def by blast
      have "map_of (last_trained (train g cdi s)) h = Some cdi" using h(5) by simp
      with h show ?thesis unfolding picked_def by blast
    qed
    have A: "equipment (train g cdi s) = equipment self" using eq by simp
    have B: "\<forall>h. map_of (last_trained (train g cdi s)) h = Some cdi \<or>
                 map_of (last_trained (train g cdi s)) h = map_of (last_trained self) h"
      using frame by simp
    have C: "\<forall>it\<in>set (i @ [new_item rng ss rr s k g]).
               it \<in> set its \<or> picked self (train g cdi s) ss rr cdi gs it"
      using olds keep new by auto
    from A B C show ?case by blast
  qed
  then show ?thesis by simp
qed

lemma groups_loop_distinct:
  assumes "groups_loop rng ss rr cdi gs (self, k, []) = Inr (self', k', its')"
  shows "distinct (map item_group its')"
proof -
  let ?P = "\<lambda>s (k::nat) i.
     (\<forall>it\<in>set i. \<exists>g. item_group it = Some g \<and> map_of (last_trained s) g = Some cdi) \<and>
     distinct (map item_group i)"
  have "?P self' k' its'"
  proof (rule groups_loop_invariant [OF assms, where P = ?P], goal_cases)
    case 1
    then show ?case by simp
  next
    case (2 g s k i lt)
    have grp: "item_group (new_item rng ss rr s k g) = Some g"
      using new_item_ok [OF 2(5)] item_ok_group by blast
    have ne: "lt \<noteq> cdi" using 2(4) by auto
    have fresh: "Some g \<notin> item_group ` set i"
      using 2(2,3) ne by force
    show ?case using 2(2) grp fresh by (auto simp: fun_upd_def)
  qed
  then show ?thesis by simp
qed

lemma groups_loop_draws:
  assumes "groups_loop rng ss rr cdi gs (self, k, its) = Inr (self', k', its')"
  shows "k' + length its = k + length its'"
  by (rule groups_loop_invariant [OF assms, where P = "\<lambda>s j i. j + length its = k + length i"]) auto

lemma picked_cong: "set gs = set gs' \<Longrightarrow> picked self self' ss rr cdi gs it = picked self self' ss rr cdi gs' it"
  by (simp add: picked_def)

lemma build_day_summary:
  assumes "build_day rng ss rr w df st = Inr st'"
  shows "\<exists>self' its.
           st' = \<lparr>self_of = self', draws = draws st + length its,
                  current_day_index = current_day_index st + 1,
                  sched = sched st @ [\<lparr>week = w, day_index = int (fst df), focus = snd df, items = its\<rparr>]\<rparr> \<and>
           equipment self' = equipment (self_of st) \<and>
           (\<forall>g. map_of (last_trained self') g = Some (current_day_index st) \<or>
                map_of (last_trained self') g = map_of (last_trained (self_of st)) g) \<and>
           (\<forall>it\<in>set its. picked (self_of st) self' ss rr (current_day_index st) (focus_groups (snd df)) it) \<and>
           distinct (map item_group its) \<and> length its \<le> 5"
proof -
  obtain groups self' k' its where
    srt: "sort_groups (self_of st) (focus_groups (snd df)) = Inr groups"
    and loop: "groups_loop rng ss rr (current_day_index st) groups (self_of st, draws st, []) =
                 Inr (self', k', its)"
    and st': "st' = \<lparr>self_of = self', draws = k', current_day_index = current_day_index st + 1,
                  sched = sched st @ [\<lparr>week = w, day_index = int (fst df), focus = snd df, items = its\<rparr>]\<rparr>"
    using build_day_Inr [OF assms] by blast
  have k': "k' = draws st + length its" using groups_loop_draws [OF loop] by simp
  have grp: "set groups = set (focus_groups (snd df))" using sort_groups_set [OF srt] .
  have frame: "\<forall>g. map_of (last_trained self') g = Some (current_day_index st) \<or>
                map_of (last_trained self') g = map_of (last_trained (self_of st)) g"
    and pk: "\<forall>it\<in>set its. it \<in> set [] \<or> picked (self_of st) self' ss rr (current_day_index st) groups it"
    using groups_loop_items [OF loop] by blast+
  have pk': "\<forall>it\<in>set its. picked (self_of st) self' ss rr (current_day_index st) (focus_groups (snd df)) it"
    using pk picked_cong [OF grp] by simp
  have "distinct (map item_group its)" using groups_loop_distinct [OF loop] .
  moreover have "length its \<le> 5" using groups_loop_length [OF loop] by simp
  moreover have "equipment self' = equipment (self_of st)"
    using groups_loop_frame [OF loop] by auto
  ultimately show ?thesis using st' k' frame pk' by blast
qed

subsection \<open>A run: constructor, then generate\<close>

lemma WorkoutPlan_well_formed:
  assumes "WorkoutPlan cid dpw lvl gl eq = Inr self"
  shows "well_formed \<lparr>self_of = self, draws = 0, current_day_index = 0, sched = []\<rparr>"
    and "character_id self = cid" and "days self = max 1 (min 6 dpw)" and "level self = lvl"
    and "goal self = gl" and "equipment self = eq"
    and "last_trained self = [(''chest'', -999), (''back'', -999), (''legs'', -999),
                              (''shoulders'', -999), (''arms'', -999), (''core'', -999)]"
    and "make_template cid (max 1 (min 6 dpw)) = Inr (template self)"
proof -
  obtain t where t: "make_template cid (max 1 (min 6 dpw)) = Inr t" "set t \<subseteq> set DayFocus"
    and eq: "WorkoutPlan cid dpw lvl gl eq =
         Inr \<lparr>character_id = cid, days = max 1 (min 6 dpw), level = lvl, goal = gl, equipment = eq,
              last_trained = [(''chest'', -999), (''back'', -999), (''legs'', -999),
                              (''shoulders'', -999), (''arms'', -999), (''core'', -999)],
              template = t\<rparr>"
    using WorkoutPlan_eq [of cid dpw lvl gl eq] by blast
  have self: "self = \<lparr>character_id = cid, days = max 1 (min 6 dpw), level = lvl, goal = gl, equipment = eq,
              last_trained = [(''chest'', -999), (''back'', -999), (''legs'', -999),
                              (''shoulders'', -999), (''arms'', -999), (''core'', -999)],
              template = t\<rparr>"
    using assms eq by simp
  show "well_formed \<lparr>self_of = self, draws = 0, current_day_index = 0, sched = []\<rparr>"
    using t(2) by (auto simp: self well_formed_def tracked_def list_all_iff)
  show "character_id self = cid" "days self = max 1 (min 6 dpw)" "level self = lvl"
    "goal self = gl" "equipment self = eq"
    "last_trained self = [(''chest'', -999), (''back'', -999), (''legs'', -999),
                              (''shoulders'', -999), (''arms'', -999), (''core'', -999)]"
    "make_template cid (max 1 (min 6 dpw)) = Inr (template self)"
    using t(1) by (simp_all add: self)
qed

lemma WorkoutPlan_total: "\<exists>self. WorkoutPlan cid dpw lvl gl eq = Inr self"
  using WorkoutPlan_eq [of cid dpw lvl gl eq] by blast

lemma generate_Inr:
  assumes "generate rng self n = Inr (self', s)"
  shows "\<exists>st'. weeks_loop rng (fst (sets_reps self)) (snd (sets_reps self)) [1..n]
                 \<lparr>self_of = self, draws = 0, current_day_index = 0, sched = []\<rparr> = Inr st' \<and>
               self_of st' = self' \<and> sched st' = s"
  using assms by (auto simp: generate_def split: sum.splits)

lemma generate_total:
  assumes "well_formed \<lparr>self_of = self, draws = 0, current_day_index = 0, sched = []\<rparr>"
  shows "\<exists>self' s. generate rng self n = Inr (self', s)"
proof -
  obtain st' where "weeks_loop rng (fst (sets_reps self)) (snd (sets_reps self)) [1..n]
                 \<lparr>self_of = self, draws = 0, current_day_index = 0, sched = []\<rparr> = Inr st'"
    using weeks_loop_total [OF assms] by blast
  then show ?thesis by (simp add: generate_def)
qed

lemma run_total:
  "\<exists>self self' s. WorkoutPlan cid dpw lvl gl eq = Inr self \<and> generate rng self n = Inr (self', s)"
proof -
  obtain self where self: "WorkoutPlan cid dpw lvl gl eq = Inr self"
    using WorkoutPlan_total by blast
  then show ?thesis
    using generate_total [OF WorkoutPlan_well_formed(1) [OF self]] by blast
qed

lemma generate_invariant:
  assumes "generate rng self n = Inr (self', s)"
    and "Q \<lparr>self_of = self, draws = 0, current_day_index = 0, sched = []\<rparr>"
    and "\<And>w df st st'. Q st \<Longrightarrow>
           build_day rng (fst (sets_reps self)) (snd (sets_reps self)) w df st = Inr st' \<Longrightarrow> Q st'"
  shows "\<exists>st'. self_of st' = self' \<and> sched st' = s \<and> Q st'"
proof -
  obtain st' where loop: "weeks_loop rng (fst (sets_reps self)) (snd (sets_reps self)) [1..n]
                 \<lparr>self_of = self, draws = 0, current_day_index = 0, sched = []\<rparr> = Inr st'"
    and st': "self_of st' = self'" "sched st' = s"
    using generate_Inr [OF assms(1)] by blast
  have "Q st'"
    by (rule weeks_loop_invariant [where Q = Q, OF loop assms(2)]) (rule assms(3))
  then show ?thesis using st' by blast
qed

lemma build_day_header:
  assumes "build_day rng ss rr w df st = Inr st'"
  shows "map header (sched st') = map header (sched st) @ [(w, int (fst df), snd df)] \<and>
         template (self_of st') = template (self_of st)"
proof -
  obtain groups self' k' its where
    loop: "groups_loop rng ss rr (current_day_index st) groups (self_of st, draws st, []) =
             Inr (self', k', its)"
    and st': "st' = \<lparr>self_of = self', draws = k', current_day_index = current_day_index st + 1,
                  sched = sched st @ [\<lparr>week = w, day_index = int (fst df), focus = snd df, items = its\<rparr>]\<rparr>"
    using build_day_Inr [OF assms] by blast
  obtain lt where "self' = (self_of st)\<lparr>last_trained := lt\<rparr>"
    using groups_loop_frame [OF loop] by blast
  then show ?thesis by (simp add: st' header_def)
qed

lemma days_loop_header:
  assumes "days_loop rng ss rr w dfs st = Inr st'"
  shows "map header (sched st') = map header (sched st) @ map (\<lambda>df. (w, int (fst df), snd df)) dfs \<and>
         template (self_of st') = template (self_of st)"
  using assms
proof (induction dfs arbitrary: st)
  case Nil
  then show ?case by simp
next
  case (Cons df dfs)
  from Cons.prems obtain st1 where day: "build_day rng ss rr w df st = Inr st1"
    and rest: "days_loop rng ss rr w dfs st1 = Inr st'"
    by (auto split: sum.splits)
  show ?case using build_day_header [OF day] Cons.IH [OF rest] by simp
qed

lemma weeks_loop_header:
  assumes "weeks_loop rng ss rr ws st = Inr st'"
  shows "map header (sched st') =
           map header (sched st) @ concat (map (week_block (template (self_of st))) ws) \<and>
         template (self_of st') = template (self_of st)"
  using assms
proof (induction ws arbitrary: st)
  case Nil
  then show ?case by simp
next
  case (Cons w ws)
  from Cons.prems obtain st1 where
    week: "days_loop rng ss rr w (enumerate 0 (template (self_of st))) st = Inr st1"
    and rest: "weeks_loop rng ss rr ws st1 = Inr st'"
    by (auto split: sum.splits)
  show ?case using days_loop_header [OF week] Cons.IH [OF rest] by (simp add: week_block_def)
qed

lemma generate_header:
  assumes "generate rng self n = Inr (self', s)"
  shows "map header s = concat (map (week_block (template self)) [1..n])"
proof -
  obtain st' where loop: "weeks_loop rng (fst (sets_reps self)) (snd (sets_reps self)) [1..n]
                 \<lparr>self_of = self, draws = 0, current_day_index = 0, sched = []\<rparr> = Inr st'"
    and st': "sched st' = s"
    using generate_Inr [OF assms] by blast
  show ?thesis using weeks_loop_header [OF loop] st' by simp
qed

lemma length_concat_blocks:
  "\<forall>x\<in>set xs. length (f x) = L \<Longrightarrow> length (concat (map f xs)) = length xs * L"
  by (induction xs) auto

lemma nth_concat_blocks:
  "\<forall>x\<in>set xs. length (f x) = L \<Longrightarrow> i < length xs \<Longrightarrow> d < L \<Longrightarrow>
     concat (map f xs) ! (i * L + d) = f (xs ! i) ! d"
proof (induction xs arbitrary: i)
  case Nil
  then show ?case by simp
next
  case (Cons x xs)
  show ?case
  proof (cases i)
    case 0
    then show ?thesis using Cons.prems by (simp add: nth_append)
  next
    case (Suc j)
    have "Suc j * L + d = length (f x) + (j * L + d)" using Cons.prems(1) by simp
    then have "concat (map f (x # xs)) ! (i * L + d) = concat (map f xs) ! (j * L + d)"
      using Suc by (simp add: nth_append)
    then show ?thesis using Cons.IH [of j] Cons.prems Suc by simp
  qed
qed

lemma length_week_block: "length (week_block t w) = length t"
  by (simp add: week_block_def)

lemma nth_week_block: "d < length t \<Longrightarrow> week_block t w ! d = (w, int d, t ! d)"
  by (simp add: week_block_def nth_enumerate_eq)

lemma generate_shape:
  assumes "generate rng self n = Inr (self', s)"
  shows "length s = nat n * length (template self)"
    and "w < nat n \<Longrightarrow> d < length (template self) \<Longrightarrow>
           header (s ! (w * length (template self) + d)) = (int w + 1, int d, template self ! d)"
proof -
  let ?L = "length (template self)"
  have hdr: "map header s = concat (map (week_block (template self)) [1..n])"
    using generate_header [OF assms] .
  have blocks: "\<forall>x\<in>set [1..n]. length (week_block (template self) x) = ?L"
    by (simp add: length_week_block)
  have "length (map header s) = length [1..n] * ?L"
    unfolding hdr using length_concat_blocks [OF blocks] .
  then show len: "length s = nat n * ?L" by simp
  assume w: "w < nat n" and d: "d < ?L"
  have "w * ?L + d < Suc w * ?L" using d by simp
  also have "\<dots> \<le> nat n * ?L" using w by (intro mult_le_mono1) simp
  finally have inside: "w * ?L + d < length s" using len by simp
  have "header (s ! (w * ?L + d)) = map header s ! (w * ?L + d)"
    using inside by simp
  also have "\<dots> = week_block (template self) ([1..n] ! w) ! d"
    unfolding hdr using nth_concat_blocks [OF blocks, of w d] w d by simp
  also have "[1..n] ! w = 1 + int w" using w by (intro nth_upto) linarith
  finally show "header (s ! (w * ?L + d)) = (int w + 1, int d, template self ! d)"
    using d by (simp add: nth_week_block)
qed

subsection \<open>The shape of the schedule\<close>

text \<open>
  C1. A generator built from any request, asked for \<open>n\<close> weeks, returns a schedule
  and raises nothing. The schedule has \<open>n\<close> times the length of the template entries
  (none when \<open>n\<close> is negative). They are ordered by week, then by day: entry
  \<open>w * length template + d\<close> belongs to week \<open>w + 1\<close>, has \<open>day_index = d\<close> and has
  the focus at position \<open>d\<close> of the template.
\<close>

theorem schedule_shape:
  "\<exists>self self' s.
     WorkoutPlan cid dpw lvl gl eq = Inr self \<and> generate rng self n = Inr (self', s) \<and>
     length s = nat n * length (template self) \<and>
     (\<forall>w<nat n. \<forall>d<length (template self).
        week (s ! (w * length (template self) + d)) = int w + 1 \<and>
        day_index (s ! (w * length (template self) + d)) = int d \<and>
        focus (s ! (w * length (template self) + d)) = template self ! d)"
proof -
  obtain self self' s where run: "WorkoutPlan cid dpw lvl gl eq = Inr self"
    "generate rng self n = Inr (self', s)"
    using run_total by blast
  have "length s = nat n * length (template self)"
    using generate_shape(1) [OF run(2)] .
  moreover have "\<forall>w<nat n. \<forall>d<length (template self).
        week (s ! (w * length (template self) + d)) = int w + 1 \<and>
        day_index (s ! (w * length (template self) + d)) = int d \<and>
        focus (s ! (w * length (template self) + d)) = template self ! d"
    using generate_shape(2) [OF run(2)] by (simp add: header_def)
  ultimately show ?thesis using run by blast
qed

text \<open>
  An unknown character with two days per week and two weeks: the template has three
  entries, the schedule six, and the last one is day 2 of week 2.
\<close>

theorem schedule_shape_witness:
  "\<exists>self self' s.
     WorkoutPlan ''nobody'' 2 ''beginner'' ''athletic'' ''gym'' = Inr self \<and>
     generate (\<lambda>k. k) self 2 = Inr (self', s) \<and>
     template self = [''full'', ''full'', ''full''] \<and> length s = 6 \<and>
     week (s ! 5) = 2 \<and> day_index (s ! 5) = 2 \<and> focus (s ! 5) = ''full''"
proof -
  obtain self self' s where
    init: "WorkoutPlan ''nobody'' 2 ''beginner'' ''athletic'' ''gym'' = Inr self"
    and gen: "generate (\<lambda>k. k) self 2 = Inr (self', s)"
    and len: "length s = nat 2 * length (template self)"
    and idx: "\<forall>w<nat 2. \<forall>d<length (template self).
        week (s ! (w * length (template self) + d)) = int w + 1 \<and>
        day_index (s ! (w * length (template self) + d)) = int d \<and>
        focus (s ! (w * length (template self) + d)) = template self ! d"
    using schedule_shape [of "''nobody''" 2 "''beginner''" "''athletic''" "''gym''" "\<lambda>k. k" 2]
    by blast
  have t: "template self = [''full'', ''full'', ''full'']"
    using init by (auto simp: WorkoutPlan_def make_template_def CHAR_ARCH_def)
  have "(1::nat) < nat 2" "(2::nat) < length (template self)" by (simp_all add: t)
  with idx have "week (s ! (1 * length (template self) + 2)) = int 1 + 1 \<and>
        day_index (s ! (1 * length (template self) + 2)) = int 2 \<and>
        focus (s ! (1 * length (template self) + 2)) = template self ! 2"
    by blast
  moreover have "1 * length (template self) + 2 = 5" "template self ! 2 = ''full''"
    by (simp_all add: t)
  ultimately have "week (s ! 5) = 2 \<and> day_index (s ! 5) = 2 \<and> focus (s ! 5) = ''full''"
    by (simp only: of_nat_numeral of_nat_1 one_add_one)
  moreover have "length s = 6" using len by (simp add: t)
  ultimately show ?thesis using init gen t by blast
qed

lemma picked_item_ok:
  "picked self self' ss rr cdi gs it \<Longrightarrow> list_ex (\<lambda>g. item_ok (equipment self) ss rr g it) gs"
  by (auto simp: picked_def list_ex_iff)

lemma generate_day_ok:
  assumes "generate rng self n = Inr (self', s)" and "p \<in> set s"
  shows "day_ok (equipment self) (fst (sets_reps self)) (snd (sets_reps self)) p"
proof -
  let ?ss = "fst (sets_reps self)" and ?rr = "snd (sets_reps self)"
  let ?Q = "\<lambda>st::gen_state. equipment (self_of st) = equipment self \<and>
                 (\<forall>p\<in>set (sched st). day_ok (equipment self) ?ss ?rr p)"
  have "\<exists>st'. self_of st' = self' \<and> sched st' = s \<and> ?Q st'"
  proof (rule generate_invariant [OF assms(1), where Q = ?Q], goal_cases)
    case 1
    then show ?case by simp
  next
    case (2 w df st st')
    obtain self1 its where
      st': "st' = \<lparr>self_of = self1, draws = draws st + length its,
                  current_day_index = current_day_index st + 1,
                  sched = sched st @ [\<lparr>week = w, day_index = int (fst df), focus = snd df, items = its\<rparr>]\<rparr>"
      and eq: "equipment self1 = equipment (self_of st)"
      and pk: "\<forall>it\<in>set its. picked (self_of st) self1 ?ss ?rr (current_day_index st) (focus_groups (snd df)) it"
      and dist: "distinct (map item_group its)" and len: "length its \<le> 5"
      using build_day_summary [OF 2(2)] by blast
    have "\<forall>it\<in>set its. list_ex (\<lambda>g. item_ok (equipment self) ?ss ?rr g it) (focus_groups (snd df))"
      using pk picked_item_ok 2(1) by fastforce
    then have "day_ok (equipment self) ?ss ?rr
                 \<lparr>week = w, day_index = int (fst df), focus = snd df, items = its\<rparr>"
      using dist len by (simp add: day_ok_def list_all_iff)
    then show ?case using 2(1) eq by (simp add: st')
  qed
  then show ?thesis using assms(2) by blast
qed

lemma trained_on_snoc:
  "trained_on (s @ [p]) i g =
     (if i < length s then trained_on s i g
      else i = length s \<and> list_ex (\<lambda>it. item_group it = Some g) (items p))"
  by (auto simp: trained_on_def nth_append)

lemma build_day_recovering:
  assumes day: "build_day rng ss rr w df st = Inr st'" and inv: "recovering st"
  shows "recovering st'"
proof -
  let ?cdi = "current_day_index st" and ?s = "sched st"
  let ?lt = "map_of (last_trained (self_of st))"
  obtain self1 its where
    st': "st' = \<lparr>self_of = self1, draws = draws st + length its,
                current_day_index = ?cdi + 1,
                sched = ?s @ [\<lparr>week = w, day_index = int (fst df), focus = snd df, items = its\<rparr>]\<rparr>"
    and frame: "\<forall>g. map_of (last_trained self1) g = Some ?cdi \<or> map_of (last_trained self1) g = ?lt g"
    and pk: "\<forall>it\<in>set its. picked (self_of st) self1 ss rr ?cdi (focus_groups (snd df)) it"
    using build_day_summary [OF day] by blast
  let ?lt' = "map_of (last_trained self1)"
  let ?p = "\<lparr>week = w, day_index = int (fst df), focus = snd df, items = its\<rparr>"
  have cdi: "?cdi = int (length ?s)"
    and below: "\<And>g v. ?lt g = Some v \<Longrightarrow> v < ?cdi"
    and last: "\<And>g i. trained_on ?s i g \<Longrightarrow> \<exists>v. ?lt g = Some v \<and> int i \<le> v"
    and gap: "\<And>g i. trained_on ?s i g \<Longrightarrow> \<not> trained_on ?s (Suc i) g"
    using inv unfolding recovering_def by blast+
  have today: "\<exists>v. ?lt g = Some v \<and> 2 \<le> ?cdi - v \<and> ?lt' g = Some ?cdi"
    if "list_ex (\<lambda>it. item_group it = Some g) its" for g
  proof -
    from that obtain it where it: "it \<in> set its" "item_group it = Some g"
      by (auto simp: list_ex_iff)
    then obtain h v where h: "item_ok (equipment (self_of st)) ss rr h it"
      "?lt h = Some v" "2 \<le> ?cdi - v" "?lt' h = Some ?cdi"
      using pk unfolding picked_def by blast
    have "h = g" using item_ok_group [OF h(1)] it(2) by simp
    then show ?thesis using h by blast
  qed
  have A: "current_day_index st' = int (length (sched st'))"
    using cdi by (simp add: st')
  have B: "v < current_day_index st'" if "map_of (last_trained (self_of st')) g = Some v" for g v
  proof -
    have "?lt' g = Some v" using that by (simp add: st')
    then have "v = ?cdi \<or> ?lt g = Some v" using frame by (metis option.inject)
    then have "v \<le> ?cdi" using below [of g v] by auto
    then show ?thesis by (simp add: st')
  qed
  have C: "\<exists>v. map_of (last_trained (self_of st')) g = Some v \<and> int i \<le> v"
    if "trained_on (sched st') i g" for g i
  proof (cases "i < length ?s")
    case True
    then have "trained_on ?s i g" using that by (simp add: st' trained_on_snoc)
    then obtain v where v: "?lt g = Some v" "int i \<le> v" using last by blast
    have "?lt' g = Some ?cdi \<or> ?lt' g = Some v" using frame v(1) by metis
    then show ?thesis using v(2) True cdi by (auto simp: st')
  next
    case False
    then have "i = length ?s" "list_ex (\<lambda>it. item_group it = Some g) its"
      using that by (simp_all add: st' trained_on_snoc)
    then show ?thesis using today [of g] cdi by (auto simp: st')
  qed
  have D: "\<not> trained_on (sched st') (Suc i) g" if "trained_on (sched st') i g" for g i
  proof (cases "Suc i < length ?s")
    case True
    then show ?thesis using that gap [of i g] by (simp add: st' trained_on_snoc)
  next
    case False
    show ?thesis
    proof
      assume next_day: "trained_on (sched st') (Suc i) g"
      then have i: "Suc i = length ?s" and its: "list_ex (\<lambda>it. item_group it = Some g) its"
        using False by (simp_all add: st' trained_on_snoc)
      have "trained_on ?s i g" using that i by (simp add: st' trained_on_snoc)
      then obtain v where v: "?lt g = Some v" "int i \<le> v" using last by blast
      obtain v' where v': "?lt g = Some v'" "2 \<le> ?cdi - v'" using today [OF its] by blast
      have "v' = v" using v(1) v'(1) by simp
      then show False using v(2) v'(2) i cdi by linarith
    qed
  qed
  show ?thesis unfolding recovering_def using A B C D by blast
qed

lemma fresh_recovering:
  assumes "WorkoutPlan cid dpw lvl gl eq = Inr self"
  shows "recovering \<lparr>self_of = self, draws = 0, current_day_index = 0, sched = []\<rparr>"
  unfolding recovering_def
  by (auto simp: WorkoutPlan_well_formed(7) [OF assms] trained_on_def split: if_splits)

subsection \<open>The recovery constraint\<close>

text \<open>
  C2. In the schedule of a new generator, a group trained on global day \<open>i\<close> is not
  trained on any day \<open>k\<close> with \<open>i < k < i + 2\<close>, that is on the next day, whether or
  not a week ends between the two: the days are counted through all weeks. The entry of
  \<open>last_trained\<close> for a group trained on day \<open>i\<close> is, at the end, a day of the schedule
  not before \<open>i\<close>.
\<close>

theorem recovery_constraint:
  "\<exists>self self' s.
     WorkoutPlan cid dpw lvl gl eq = Inr self \<and> generate rng self n = Inr (self', s) \<and>
     (\<forall>g i k. trained_on s i g \<and> i < k \<and> k < i + 2 \<longrightarrow> \<not> trained_on s k g) \<and>
     (\<forall>g i. trained_on s i g \<longrightarrow>
        (\<exists>v. map_of (last_trained self') g = Some v \<and> int i \<le> v \<and> v < int (length s)))"
proof -
  obtain self self' s where run: "WorkoutPlan cid dpw lvl gl eq = Inr self"
    "generate rng self n = Inr (self', s)"
    using run_total by blast
  have "\<exists>st'. self_of st' = self' \<and> sched st' = s \<and> recovering st'"
    by (rule generate_invariant [OF run(2), where Q = recovering])
       (use fresh_recovering [OF run(1)] build_day_recovering in \<open>blast+\<close>)
  then obtain st' where st': "self_of st' = self'" "sched st' = s" "recovering st'" by blast
  have gap: "\<not> trained_on s (Suc i) g" if "trained_on s i g" for g i
    using st' that unfolding recovering_def by blast
  have "\<not> trained_on s k g" if "trained_on s i g \<and> i < k \<and> k < i + 2" for g i k
  proof -
    have "k = Suc i" using that by linarith
    then show ?thesis using gap that by blast
  qed
  moreover have "\<exists>v. map_of (last_trained self') g = Some v \<and> int i \<le> v \<and> v < int (length s)"
    if "trained_on s i g" for g i
    using st' that unfolding recovering_def by metis
  ultimately show ?thesis using run by blast
qed

text \<open>
  An unknown character asked for two days a week gets the template of three full days.
  Over two weeks the chest is trained on day 2 (the last of week 1) and not on day 3
  (the first of week 2); its last training is day 4.
\<close>

theorem recovery_constraint_witness:
  "\<exists>self self' s.
     WorkoutPlan ''nobody'' 2 ''beginner'' ''athletic'' ''gym'' = Inr self \<and>
     generate (\<lambda>k. 0) self 2 = Inr (self', s) \<and>
     trained_on s 2 ''chest'' \<and> \<not> trained_on s 3 ''chest'' \<and>
     map_of (last_trained self') ''chest'' = Some 4"
proof -
  obtain self self' s where
    init: "WorkoutPlan ''nobody'' 2 ''beginner'' ''athletic'' ''gym'' = Inr self"
    and gen: "generate (\<lambda>k. 0) self 2 = Inr (self', s)"
    and gap: "\<forall>g i k. trained_on s i g \<and> i < k \<and> k < i + 2 \<longrightarrow> \<not> trained_on s k g"
    using recovery_constraint [of "''nobody''" 2 "''beginner''" "''athletic''" "''gym''" "\<lambda>k. 0" 2]
    by blast
  have "case WorkoutPlan ''nobody'' 2 ''beginner'' ''athletic'' ''gym'' of
          Inl e \<Rightarrow> False
        | Inr p \<Rightarrow>
            (case generate (\<lambda>k. 0) p 2 of
               Inl e \<Rightarrow> False
             | Inr (p', s) \<Rightarrow>
                 trained_on s 2 ''chest'' \<and> map_of (last_trained p') ''chest'' = Some 4)"
    by code_simp
  then have run: "trained_on s 2 ''chest''" "map_of (last_trained self') ''chest'' = Some 4"
    using init gen by simp_all
  have "trained_on s 2 ''chest'' \<and> (2::nat) < 3 \<and> (3::nat) < 2 + 2" using run by simp
  then have "\<not> trained_on s 3 ''chest''" using gap by blast
  then show ?thesis using init gen run by blast
qed

lemma item_ok_exercise:
  assumes "item_ok eq ss rr g it"
  shows "sets it = ss" and "reps it = rr"
    and "\<exists>ex\<in>set EXERCISES. exercise_by_id (exercise_id it) = Some ex \<and> ex_id ex = exercise_id it \<and>
           item_group it = Some (ex_group ex) \<and> ex_group ex = g \<and>
           (eq = ''gym'' \<or> ex_equipment ex = eq \<or> ex_equipment ex = ''bodyweight'')"
proof -
  show "sets it = ss" "reps it = rr" using assms by (simp_all add: item_ok_def)
  obtain ex where ex: "ex \<in> set EXERCISES" "eligible eq g ex" "exercise_id it = ex_id ex"
    using assms by (auto simp: item_ok_def list_ex_iff)
  have "exercise_by_id (exercise_id it) = Some ex"
    using ex(1,3) exercise_by_id_catalog by simp
  moreover have "item_group it = Some (ex_group ex)"
    using calculation by (simp add: item_group_def)
  ultimately show "\<exists>ex\<in>set EXERCISES. exercise_by_id (exercise_id it) = Some ex \<and> ex_id ex = exercise_id it \<and>
           item_group it = Some (ex_group ex) \<and> ex_group ex = g \<and>
           (eq = ''gym'' \<or> ex_equipment ex = eq \<or> ex_equipment ex = ''bodyweight'')"
    using ex by (auto simp: eligible_def)
qed

lemma generate_items:
  assumes "generate rng self n = Inr (self', s)" and "p \<in> set s" and "it \<in> set (items p)"
  shows "\<exists>g\<in>set (focus_groups (focus p)).
           item_ok (equipment self) (fst (sets_reps self)) (snd (sets_reps self)) g it"
  using generate_day_ok [OF assms(1,2)] assms(3)
  by (auto simp: day_ok_def list_all_iff list_ex_iff)

lemma sets_reps_fresh:
  assumes "WorkoutPlan cid dpw lvl gl eq = Inr self"
  shows "sets_reps self =
           (case map_of CHAR_ARCH cid of
              Some a \<Rightarrow>
                (arch_sets a,
                 if gl = ''strength'' then min (arch_reps a) 6
                 else if gl = ''hypertrophy'' then max (arch_reps a) 8
                 else max (arch_reps a) 10)
            | None \<Rightarrow>
                (if lvl = ''beginner'' then 3 else 4,
                 if gl = ''strength'' then 4 else if gl = ''hypertrophy'' then 8 else 10))"
  using WorkoutPlan_well_formed(2,4,5) [OF assms]
  by (simp add: sets_reps_def Let_def split: option.splits)

subsection \<open>Sets and reps\<close>

text \<open>
  C3. For a generator built from a request, the sets are the archetype's when the
  character is known, else 3 for a beginner and 4 otherwise; the reps are the
  archetype's reps capped at 6 for the goal strength (4 without an archetype), raised to
  at least 8 for hypertrophy (8 without) and to at least 10 for any other goal (10
  without). Every item of every day of the schedule carries this one pair. Goku with
  strength has 5 reps, Luffy with strength 6, Saitama with hypertrophy 3 sets of 10.
\<close>

theorem sets_reps_resolution:
  "\<exists>self self' s.
     WorkoutPlan cid dpw lvl gl eq = Inr self \<and> generate rng self n = Inr (self', s) \<and>
     sets_reps self =
       (case map_of CHAR_ARCH cid of
          Some a \<Rightarrow>
            (arch_sets a,
             if gl = ''strength'' then min (arch_reps a) 6
             else if gl = ''hypertrophy'' then max (arch_reps a) 8
             else max (arch_reps a) 10)
        | None \<Rightarrow>
            (if lvl = ''beginner'' then 3 else 4,
             if gl = ''strength'' then 4 else if gl = ''hypertrophy'' then 8 else 10)) \<and>
     (\<forall>p\<in>set s. \<forall>it\<in>set (items p). (sets it, reps it) = sets_reps self) \<and>
     (cid = ''goku'' \<and> gl = ''strength'' \<longrightarrow> snd (sets_reps self) = 5) \<and>
     (cid = ''luffy'' \<and> gl = ''strength'' \<longrightarrow> snd (sets_reps self) = 6) \<and>
     (cid = ''saitama'' \<and> gl = ''hypertrophy'' \<longrightarrow> sets_reps self = (3, 10))"
proof -
  obtain self self' s where run: "WorkoutPlan cid dpw lvl gl eq = Inr self"
    "generate rng self n = Inr (self', s)"
    using run_total by blast
  note sr = sets_reps_fresh [OF run(1)]
  have all: "\<forall>p\<in>set s. \<forall>it\<in>set (items p). (sets it, reps it) = sets_reps self"
  proof (intro ballI)
    fix p it assume "p \<in> set s" "it \<in> set (items p)"
    then obtain g where "item_ok (equipment self) (fst (sets_reps self)) (snd (sets_reps self)) g it"
      using generate_items [OF run(2)] by blast
    then show "(sets it, reps it) = sets_reps self"
      using item_ok_exercise(1,2) by (metis prod.collapse)
  qed
  have goku: "cid = ''goku'' \<and> gl = ''strength'' \<longrightarrow> snd (sets_reps self) = 5"
    by (simp add: sr CHAR_ARCH_def)
  have luffy: "cid = ''luffy'' \<and> gl = ''strength'' \<longrightarrow> snd (sets_reps self) = 6"
    by (simp add: sr CHAR_ARCH_def)
  have saitama: "cid = ''saitama'' \<and> gl = ''hypertrophy'' \<longrightarrow> sets_reps self = (3, 10)"
    by (simp add: sr CHAR_ARCH_def)
  show ?thesis using run sr all goku luffy saitama by blast
qed

text \<open>
  Luffy with the goal strength: the plan's pair is 3 sets of 6 reps, and the first item
  of the first day carries it.
\<close>

theorem sets_reps_resolution_witness:
  "\<exists>self self' s.
     WorkoutPlan ''luffy'' 3 ''beginner'' ''strength'' ''dumbbells'' = Inr self \<and>
     generate (\<lambda>k. k) self 1 = Inr (self', s) \<and>
     sets_reps self = (3, 6) \<and> s \<noteq> [] \<and> items (hd s) \<noteq> [] \<and>
     sets (hd (items (hd s))) = 3 \<and> reps (hd (items (hd s))) = 6"
proof -
  obtain self self' s where
    init: "WorkoutPlan ''luffy'' 3 ''beginner'' ''strength'' ''dumbbells'' = Inr self"
    and gen: "generate (\<lambda>k. k) self 1 = Inr (self', s)"
    and all: "\<forall>p\<in>set s. \<forall>it\<in>set (items p). (sets it, reps it) = sets_reps self"
    and luffy: "''luffy'' = ''luffy'' \<and> ''strength'' = ''strength'' \<longrightarrow> snd (sets_reps self) = 6"
    and sr: "sets_reps self =
       (case map_of CHAR_ARCH ''luffy'' of
          Some a \<Rightarrow>
            (arch_sets a,
             if ''strength'' = ''strength'' then min (arch_reps a) 6
             else if ''strength'' = ''hypertrophy'' then max (arch_reps a) 8
             else max (arch_reps a) 10)
        | None \<Rightarrow>
            (if ''beginner'' = ''beginner'' then 3 else 4,
             if ''strength'' = ''strength'' then 4 else if ''strength'' = ''hypertrophy'' then 8 else 10))"
    using sets_reps_resolution [of "''luffy''" 3 "''beginner''" "''strength''" "''dumbbells''" "\<lambda>k. k" 1]
    by blast
  have pair: "sets_reps self = (3, 6)" using sr by (simp add: CHAR_ARCH_def)
  have "case WorkoutPlan ''luffy'' 3 ''beginner'' ''strength'' ''dumbbells'' of
          Inl e \<Rightarrow> False
        | Inr p \<Rightarrow>
            (case generate (\<lambda>k. k) p 1 of
               Inl e \<Rightarrow> False
             | Inr (p', s) \<Rightarrow> s \<noteq> [] \<and> items (hd s) \<noteq> [])"
    by code_simp
  then have ne: "s \<noteq> []" "items (hd s) \<noteq> []" using init gen by simp_all
  then have "hd s \<in> set s" "hd (items (hd s)) \<in> set (items (hd s))" by simp_all
  then have "(sets (hd (items (hd s))), reps (hd (items (hd s)))) = sets_reps self"
    using all by blast
  then have "sets (hd (items (hd s))) = 3 \<and> reps (hd (items (hd s))) = 6"
    using pair by simp
  then show ?thesis using init gen pair ne by blast
qed

lemma groups_loop_skip:
  assumes "map_of (last_trained self) g = Some v" and "cdi - v < 2 \<or> filtered self g = []"
  shows "groups_loop rng ss rr cdi (g # gs) (self, k, its) =
           groups_loop rng ss rr cdi gs (self, k, its)"
  using assms by (simp add: groups_loop_step)

lemma groups_loop_cap:
  assumes "map_of (last_trained self) g = Some v" and "2 \<le> cdi - v" and "filtered self g \<noteq> []"
    and "4 \<le> length its"
  shows "groups_loop rng ss rr cdi (g # gs) (self, k, its) =
           Inr (train g cdi self, Suc k, its @ [new_item rng ss rr self k g])"
  using assms by (simp add: groups_loop_step)

lemma groups_loop_idle:
  assumes "\<forall>h\<in>set gs. \<exists>v. map_of (last_trained self) h = Some v \<and>
             (cdi - v < 2 \<or> filtered self h = [])"
  shows "groups_loop rng ss rr cdi gs (self, k, its) = Inr (self, k, its)"
  using assms
proof (induction gs)
  case Nil
  then show ?case by simp
next
  case (Cons g gs)
  then obtain v where "map_of (last_trained self) g = Some v"
    "cdi - v < 2 \<or> filtered self g = []"
    by auto
  then show ?case using Cons by (simp add: groups_loop_skip)
qed

subsection \<open>The equipment filter\<close>

text \<open>
  C6. \<open>_filtered\<close> returns the catalog entries of the group, all of them when the
  equipment is the gym and otherwise those that need the generator's equipment or only
  the body's weight. Every item of a schedule refers to a catalog entry that passes
  this test; with dumbbells none of them needs the gym. When the pool of a tracked group
  is empty, the loop goes on to the next group with the same generator object (so the
  same \<open>last_trained\<close>), draw count and items.
\<close>

theorem equipment_filter:
  "filtered self0 g =
     filter (\<lambda>ex. ex_group ex = g \<and>
                  (equipment self0 = ''gym'' \<or> ex_equipment ex = equipment self0 \<or>
                   ex_equipment ex = ''bodyweight'')) EXERCISES \<and>
   (\<exists>self self' s.
      WorkoutPlan cid dpw lvl gl eq = Inr self \<and> generate rng self n = Inr (self', s) \<and>
      (\<forall>p\<in>set s. \<forall>it\<in>set (items p).
         \<exists>ex\<in>set EXERCISES.
           exercise_by_id (exercise_id it) = Some ex \<and> ex_id ex = exercise_id it \<and>
           (eq = ''gym'' \<or> ex_equipment ex = eq \<or> ex_equipment ex = ''bodyweight'') \<and>
           (eq = ''dumbbells'' \<longrightarrow> ex_equipment ex \<noteq> ''gym''))) \<and>
   (filtered self0 g = [] \<and> map_of (last_trained self0) g \<noteq> None \<longrightarrow>
      groups_loop rng ss rr cdi (g # gs) (self0, k, its) =
        groups_loop rng ss rr cdi gs (self0, k, its))"
proof -
  have A: "filtered self0 g =
     filter (\<lambda>ex. ex_group ex = g \<and>
                  (equipment self0 = ''gym'' \<or> ex_equipment ex = equipment self0 \<or>
                   ex_equipment ex = ''bodyweight'')) EXERCISES"
    by (simp add: filtered_filter eligible_def [abs_def])
  obtain self self' s where run: "WorkoutPlan cid dpw lvl gl eq = Inr self"
    "generate rng self n = Inr (self', s)"
    using run_total by blast
  have eq: "equipment self = eq" using WorkoutPlan_well_formed(6) [OF run(1)] .
  have B: "\<forall>p\<in>set s. \<forall>it\<in>set (items p).
         \<exists>ex\<in>set EXERCISES.
           exercise_by_id (exercise_id it) = Some ex \<and> ex_id ex = exercise_id it \<and>
           (eq = ''gym'' \<or> ex_equipment ex = eq \<or> ex_equipment ex = ''bodyweight'') \<and>
           (eq = ''dumbbells'' \<longrightarrow> ex_equipment ex \<noteq> ''gym'')"
  proof (intro ballI)
    fix p it assume "p \<in> set s" "it \<in> set (items p)"
    then obtain h where "item_ok eq (fst (sets_reps self)) (snd (sets_reps self)) h it"
      using generate_items [OF run(2)] eq by blast
    then obtain ex where ex: "ex \<in> set EXERCISES" "exercise_by_id (exercise_id it) = Some ex"
      "ex_id ex = exercise_id it"
      "eq = ''gym'' \<or> ex_equipment ex = eq \<or> ex_equipment ex = ''bodyweight''"
      using item_ok_exercise(3) by blast
    have "eq = ''dumbbells'' \<longrightarrow> ex_equipment ex \<noteq> ''gym''" using ex(4) by auto
    then show "\<exists>ex\<in>set EXERCISES.
           exercise_by_id (exercise_id it) = Some ex \<and> ex_id ex = exercise_id it \<and>
           (eq = ''gym'' \<or> ex_equipment ex = eq \<or> ex_equipment ex = ''bodyweight'') \<and>
           (eq = ''dumbbells'' \<longrightarrow> ex_equipment ex \<noteq> ''gym'')"
      using ex by blast
  qed
  have C: "filtered self0 g = [] \<and> map_of (last_trained self0) g \<noteq> None \<longrightarrow>
      groups_loop rng ss rr cdi (g # gs) (self0, k, its) =
        groups_loop rng ss rr cdi gs (self0, k, its)"
    using groups_loop_skip [of self0 g _ cdi rng ss rr gs k its] by auto
  show ?thesis using A B C run by blast
qed

text \<open>
  Goku with dumbbells: the first item of the schedule is the push-up, which needs no
  equipment. No catalog entry trains the arms, so a loop that meets this group first
  goes on as if it were not in the list.
\<close>

theorem equipment_filter_witness:
  "\<exists>self self' s.
     WorkoutPlan ''goku'' 3 ''beginner'' ''strength'' ''dumbbells'' = Inr self \<and>
     generate (\<lambda>k. k) self 1 = Inr (self', s) \<and>
     s \<noteq> [] \<and> items (hd s) \<noteq> [] \<and>
     (\<exists>ex\<in>set EXERCISES. ex_id ex = exercise_id (hd (items (hd s))) \<and> ex_equipment ex \<noteq> ''gym'') \<and>
     filtered self ''arms'' = [] \<and>
     groups_loop (\<lambda>k. k) 4 5 0 [''arms'', ''chest''] (self, 0, []) =
       groups_loop (\<lambda>k. k) 4 5 0 [''chest''] (self, 0, [])"
proof -
  let ?self = "\<lparr>character_id = ''goku'', days = 3, level = ''beginner'', goal = ''strength'',
                 equipment = ''dumbbells'',
                 last_trained = [(''chest'', -999), (''back'', -999), (''legs'', -999),
                                 (''shoulders'', -999), (''arms'', -999), (''core'', -999)],
                 template = [''push'', ''pull'', ''legs'']\<rparr>"
  have init: "WorkoutPlan ''goku'' 3 ''beginner'' ''strength'' ''dumbbells'' = Inr ?self"
    by code_simp
  have arms: "filtered ?self ''arms'' = []" by code_simp
  have key: "map_of (last_trained ?self) ''arms'' \<noteq> None" by simp
  have runs: "(\<exists>self self' s.
      WorkoutPlan ''goku'' 3 ''beginner'' ''strength'' ''dumbbells'' = Inr self \<and>
      generate (\<lambda>k. k) self 1 = Inr (self', s) \<and>
      (\<forall>p\<in>set s. \<forall>it\<in>set (items p).
         \<exists>ex\<in>set EXERCISES.
           exercise_by_id (exercise_id it) = Some ex \<and> ex_id ex = exercise_id it \<and>
           (''dumbbells'' = ''gym'' \<or> ex_equipment ex = ''dumbbells'' \<or> ex_equipment ex = ''bodyweight'') \<and>
           (''dumbbells'' = ''dumbbells'' \<longrightarrow> ex_equipment ex \<noteq> ''gym'')))"
    and skip: "filtered ?self ''arms'' = [] \<and> map_of (last_trained ?self) ''arms'' \<noteq> None \<longrightarrow>
      groups_loop (\<lambda>k. k) 4 5 0 [''arms'', ''chest''] (?self, 0, []) =
        groups_loop (\<lambda>k. k) 4 5 0 [''chest''] (?self, 0, [])"
    using equipment_filter [of ?self "''arms''" "''goku''" 3 "''beginner''" "''strength''"
        "''dumbbells''" "\<lambda>k. k" 1 4 5 0 "[''chest'']" 0 "[]"]
    by blast+
  obtain self self' s where
    init': "WorkoutPlan ''goku'' 3 ''beginner'' ''strength'' ''dumbbells'' = Inr self"
    and gen: "generate (\<lambda>k. k) self 1 = Inr (self', s)"
    and all: "\<forall>p\<in>set s. \<forall>it\<in>set (items p).
         \<exists>ex\<in>set EXERCISES. ex_id ex = exercise_id it \<and> ex_equipment ex \<noteq> ''gym''"
    using runs by fastforce
  have self: "self = ?self" using init init' by simp
  have "case generate (\<lambda>k. k) ?self 1 of
          Inl e \<Rightarrow> False
        | Inr (p', s) \<Rightarrow> s \<noteq> [] \<and> items (hd s) \<noteq> []"
    by code_simp
  then have ne: "s \<noteq> []" "items (hd s) \<noteq> []" using gen self by simp_all
  then have "hd s \<in> set s" "hd (items (hd s)) \<in> set (items (hd s))" by simp_all
  then have first: "\<exists>ex\<in>set EXERCISES. ex_id ex = exercise_id (hd (items (hd s))) \<and> ex_equipment ex \<noteq> ''gym''"
    using all by blast
  have "groups_loop (\<lambda>k. k) 4 5 0 [''arms'', ''chest''] (?self, 0, []) =
        groups_loop (\<lambda>k. k) 4 5 0 [''chest''] (?self, 0, [])"
    using skip arms key by blast
  then show ?thesis using init' gen ne first arms self by blast
qed

subsection \<open>The number of items of a day\<close>

text \<open>
  C7. Every day plan of a schedule has at most five items (and \<open>generate\<close> raises
  nothing). The loop over the groups, started on a day without items, returns at most
  five items whatever the list of groups is; when a pass brings the items to five it
  returns at once, whatever groups remain. When every group of the list is recovering
  or has an empty pool, the day's items stay empty and the loop returns normally.
\<close>

theorem items_bounded:
  "(\<exists>self self' s.
      WorkoutPlan cid dpw lvl gl eq = Inr self \<and> generate rng self n = Inr (self', s) \<and>
      (\<forall>p\<in>set s. length (items p) \<le> 5)) \<and>
   (\<forall>self1 k1 its1.
      groups_loop rng ss rr cdi gs (self0, k, []) = Inr (self1, k1, its1) \<longrightarrow> length its1 \<le> 5) \<and>
   (length its = 4 \<and> (\<exists>v. map_of (last_trained self0) g = Some v \<and> 2 \<le> cdi - v) \<and>
    filtered self0 g \<noteq> [] \<longrightarrow>
      (\<exists>self1 it. \<forall>rest.
         groups_loop rng ss rr cdi (g # rest) (self0, k, its) = Inr (self1, Suc k, its @ [it]))) \<and>
   ((\<forall>h\<in>set gs. \<exists>v. map_of (last_trained self0) h = Some v \<and>
                      (cdi - v < 2 \<or> filtered self0 h = [])) \<longrightarrow>
      groups_loop rng ss rr cdi gs (self0, k, []) = Inr (self0, k, []))"
proof -
  obtain self self' s where run: "WorkoutPlan cid dpw lvl gl eq = Inr self"
    "generate rng self n = Inr (self', s)"
    using run_total by blast
  have "\<forall>p\<in>set s. length (items p) \<le> 5"
    using generate_day_ok [OF run(2)] by (simp add: day_ok_def)
  then have A: "\<exists>self self' s.
      WorkoutPlan cid dpw lvl gl eq = Inr self \<and> generate rng self n = Inr (self', s) \<and>
      (\<forall>p\<in>set s. length (items p) \<le> 5)"
    using run by blast
  have B: "\<forall>self1 k1 its1.
      groups_loop rng ss rr cdi gs (self0, k, []) = Inr (self1, k1, its1) \<longrightarrow> length its1 \<le> 5"
    using groups_loop_length [of rng ss rr cdi gs self0 k "[]"] by simp
  have C: "length its = 4 \<and> (\<exists>v. map_of (last_trained self0) g = Some v \<and> 2 \<le> cdi - v) \<and>
    filtered self0 g \<noteq> [] \<longrightarrow>
      (\<exists>self1 it. \<forall>rest.
         groups_loop rng ss rr cdi (g # rest) (self0, k, its) = Inr (self1, Suc k, its @ [it]))"
  proof (intro impI)
    assume a: "length its = 4 \<and> (\<exists>v. map_of (last_trained self0) g = Some v \<and> 2 \<le> cdi - v) \<and>
      filtered self0 g \<noteq> []"
    then obtain v where v: "map_of (last_trained self0) g = Some v" "2 \<le> cdi - v" by blast
    have "\<forall>rest. groups_loop rng ss rr cdi (g # rest) (self0, k, its) =
            Inr (train g cdi self0, Suc k, its @ [new_item rng ss rr self0 k g])"
      using groups_loop_cap [OF v] a by simp
    then show "\<exists>self1 it. \<forall>rest.
         groups_loop rng ss rr cdi (g # rest) (self0, k, its) = Inr (self1, Suc k, its @ [it])"
      by blast
  qed
  have D: "(\<forall>h\<in>set gs. \<exists>v. map_of (last_trained self0) h = Some v \<and>
                      (cdi - v < 2 \<or> filtered self0 h = [])) \<longrightarrow>
      groups_loop rng ss rr cdi gs (self0, k, []) = Inr (self0, k, [])"
    using groups_loop_idle by blast
  show ?thesis using A B C D by blast
qed

text \<open>
  Saitama without equipment: the first day has four items (no catalog entry for the
  shoulders needs no equipment) and the second none, every group recovering or without
  a pool. A day that already holds four items takes a fifth for the chest and stops
  before the back; a day for the arms alone stays empty.
\<close>

theorem items_bounded_witness:
  "\<exists>self self' s.
     WorkoutPlan ''saitama'' 3 ''beginner'' ''strength'' ''bodyweight'' = Inr self \<and>
     generate (\<lambda>k. k) self 1 = Inr (self', s) \<and>
     map (\<lambda>p. length (items p)) s = [4, 0, 4] \<and>
     (\<exists>self1 it. \<forall>rest.
        groups_loop (\<lambda>k. k) 3 6 0 (''chest'' # rest)
          (self, 0, replicate 4 \<lparr>exercise_id = ''plank'', sets = 3, reps = 6\<rparr>) =
        Inr (self1, 1, replicate 4 \<lparr>exercise_id = ''plank'', sets = 3, reps = 6\<rparr> @ [it])) \<and>
     groups_loop (\<lambda>k. k) 3 6 0 [''arms''] (self, 0, []) = Inr (self, 0, [])"
proof -
  let ?self = "\<lparr>character_id = ''saitama'', days = 3, level = ''beginner'', goal = ''strength'',
                 equipment = ''bodyweight'',
                 last_trained = [(''chest'', -999), (''back'', -999), (''legs'', -999),
                                 (''shoulders'', -999), (''arms'', -999), (''core'', -999)],
                 template = [''full'', ''full'', ''full'']\<rparr>"
  let ?its = "replicate 4 \<lparr>exercise_id = ''plank'', sets = 3, reps = 6\<rparr>"
  have init: "WorkoutPlan ''saitama'' 3 ''beginner'' ''strength'' ''bodyweight'' = Inr ?self"
    by code_simp
  have runs: "\<exists>self self' s.
      WorkoutPlan ''saitama'' 3 ''beginner'' ''strength'' ''bodyweight'' = Inr self \<and>
      generate (\<lambda>k. k) self 1 = Inr (self', s) \<and>
      (\<forall>p\<in>set s. length (items p) \<le> 5)"
    and cap: "length ?its = 4 \<and>
        (\<exists>v. map_of (last_trained ?self) ''chest'' = Some v \<and> 2 \<le> 0 - v) \<and>
        filtered ?self ''chest'' \<noteq> [] \<longrightarrow>
      (\<exists>self1 it. \<forall>rest.
         groups_loop (\<lambda>k. k) 3 6 0 (''chest'' # rest) (?self, 0, ?its) = Inr (self1, Suc 0, ?its @ [it]))"
    and idle: "(\<forall>h\<in>set [''arms'']. \<exists>v. map_of (last_trained ?self) h = Some v \<and>
                      (0 - v < 2 \<or> filtered ?self h = [])) \<longrightarrow>
      groups_loop (\<lambda>k. k) 3 6 0 [''arms''] (?self, 0, []) = Inr (?self, 0, [])"
    using items_bounded [of "''saitama''" 3 "''beginner''" "''strength''" "''bodyweight''"
        "\<lambda>k. k" 1 3 6 0 "[''arms'']" ?self 0 ?its "''chest''"]
    by blast+
  obtain self self' s where
    init': "WorkoutPlan ''saitama'' 3 ''beginner'' ''strength'' ''bodyweight'' = Inr self"
    and gen: "generate (\<lambda>k. k) self 1 = Inr (self', s)"
    using runs by blast
  have self: "self = ?self" using init init' by simp
  have "case generate (\<lambda>k. k) ?self 1 of
          Inl e \<Rightarrow> False
        | Inr (p', s) \<Rightarrow> map (\<lambda>p. length (items p)) s = [4, 0, 4]"
    by code_simp
  then have lens: "map (\<lambda>p. length (items p)) s = [4, 0, 4]" using gen self by simp
  have "filtered ?self ''chest'' \<noteq> []" by code_simp
  moreover have "length ?its = 4" by simp
  moreover have "\<exists>v. map_of (last_trained ?self) ''chest'' = Some v \<and> 2 \<le> 0 - v" by simp
  ultimately have "\<exists>self1 it. \<forall>rest.
         groups_loop (\<lambda>k. k) 3 6 0 (''chest'' # rest) (?self, 0, ?its) = Inr (self1, Suc 0, ?its @ [it])"
    using cap by blast
  then obtain self1 it where capped: "\<forall>rest.
         groups_loop (\<lambda>k. k) 3 6 0 (''chest'' # rest) (?self, 0, ?its) = Inr (self1, 1, ?its @ [it])"
    unfolding One_nat_def by blast
  have "filtered ?self ''arms'' = []" by code_simp
  then have "\<forall>h\<in>set [''arms'']. \<exists>v. map_of (last_trained ?self) h = Some v \<and>
                      (0 - v < 2 \<or> filtered ?self h = [])"
    by simp
  then have idles: "groups_loop (\<lambda>k. k) 3 6 0 [''arms''] (?self, 0, []) = Inr (?self, 0, [])"
    using idle by blast
  show ?thesis
  proof (intro exI conjI)
    show "WorkoutPlan ''saitama'' 3 ''beginner'' ''strength'' ''bodyweight'' = Inr ?self"
      by (rule init)
    show "generate (\<lambda>k. k) ?self 1 = Inr (self', s)" using gen self by simp
    show "map (\<lambda>p. length (items p)) s = [4, 0, 4]" by (rule lens)
    show "groups_loop (\<lambda>k. k) 3 6 0 [''arms''] (?self, 0, []) = Inr (?self, 0, [])"
      by (rule idles)
    show "\<forall>rest. groups_loop (\<lambda>k. k) 3 6 0 (''chest'' # rest) (?self, 0, ?its) =
            Inr (self1, 1, ?its @ [it])"
      by (rule capped)
  qed
qed

subsection \<open>The groups of a day\<close>

lemma focus_groups_sets:
  "set (focus_groups ''push'') = {''chest'', ''shoulders'', ''core''}"
  "set (focus_groups ''pull'') = {''back'', ''core''}"
  "set (focus_groups ''legs'') = {''legs'', ''core''}"
  "f \<noteq> ''push'' \<and> f \<noteq> ''pull'' \<and> f \<noteq> ''legs'' \<longrightarrow>
     set (focus_groups f) = {''chest'', ''back'', ''legs'', ''shoulders'', ''core''}"
  by (simp_all add: focus_groups_def)

text \<open>
  C9. In every day plan of a schedule no two items train the same muscle group, and
  every item's id is the id of a catalog entry whose group is one of the groups of the
  day's focus: chest, shoulders and core for push; back and core for pull; legs and
  core for legs; chest, back, legs, shoulders and core for full and any other focus.
\<close>

theorem day_groups:
  "(\<exists>self self' s.
      WorkoutPlan cid dpw lvl gl eq = Inr self \<and> generate rng self n = Inr (self', s) \<and>
      (\<forall>p\<in>set s.
         distinct (map item_group (items p)) \<and>
         (\<forall>it\<in>set (items p).
            \<exists>ex\<in>set EXERCISES.
              exercise_by_id (exercise_id it) = Some ex \<and> ex_id ex = exercise_id it \<and>
              item_group it = Some (ex_group ex) \<and>
              ex_group ex \<in> set (focus_groups (focus p))))) \<and>
   set (focus_groups ''push'') = {''chest'', ''shoulders'', ''core''} \<and>
   set (focus_groups ''pull'') = {''back'', ''core''} \<and>
   set (focus_groups ''legs'') = {''legs'', ''core''} \<and>
   (f \<noteq> ''push'' \<and> f \<noteq> ''pull'' \<and> f \<noteq> ''legs'' \<longrightarrow>
      set (focus_groups f) = {''chest'', ''back'', ''legs'', ''shoulders'', ''core''})"
proof -
  obtain self self' s where run: "WorkoutPlan cid dpw lvl gl eq = Inr self"
    "generate rng self n = Inr (self', s)"
    using run_total by blast
  have "distinct (map item_group (items p)) \<and>
         (\<forall>it\<in>set (items p).
            \<exists>ex\<in>set EXERCISES.
              exercise_by_id (exercise_id it) = Some ex \<and> ex_id ex = exercise_id it \<and>
              item_group it = Some (ex_group ex) \<and>
              ex_group ex \<in> set (focus_groups (focus p)))" if p: "p \<in> set s" for p
  proof (intro conjI ballI)
    show "distinct (map item_group (items p))"
      using generate_day_ok [OF run(2) p] by (simp add: day_ok_def)
    fix it assume "it \<in> set (items p)"
    then obtain h where h: "h \<in> set (focus_groups (focus p))"
      "item_ok (equipment self) (fst (sets_reps self)) (snd (sets_reps self)) h it"
      using generate_items [OF run(2) p] by blast
    show "\<exists>ex\<in>set EXERCISES.
              exercise_by_id (exercise_id it) = Some ex \<and> ex_id ex = exercise_id it \<and>
              item_group it = Some (ex_group ex) \<and>
              ex_group ex \<in> set (focus_groups (focus p))"
      using item_ok_exercise(3) [OF h(2)] h(1) by blast
  qed
  then have A: "\<exists>self self' s.
      WorkoutPlan cid dpw lvl gl eq = Inr self \<and> generate rng self n = Inr (self', s) \<and>
      (\<forall>p\<in>set s.
         distinct (map item_group (items p)) \<and>
         (\<forall>it\<in>set (items p).
            \<exists>ex\<in>set EXERCISES.
              exercise_by_id (exercise_id it) = Some ex \<and> ex_id ex = exercise_id it \<and>
              item_group it = Some (ex_group ex) \<and>
              ex_group ex \<in> set (focus_groups (focus p))))"
    using run by blast
  show ?thesis
    by (intro conjI A focus_groups_sets)
qed

text \<open>
  Goku, three days of one week in the gym: the first day is a push day, and its first
  item trains the chest, one of the three groups of a push day.
\<close>

theorem day_groups_witness:
  "\<exists>self self' s.
     WorkoutPlan ''goku'' 3 ''beginner'' ''strength'' ''gym'' = Inr self \<and>
     generate (\<lambda>k. k) self 1 = Inr (self', s) \<and>
     s \<noteq> [] \<and> focus (hd s) = ''push'' \<and> length (items (hd s)) = 3 \<and>
     distinct (map item_group (items (hd s))) \<and>
     item_group (hd (items (hd s))) = Some ''chest'' \<and>
     ''chest'' \<in> set (focus_groups (focus (hd s)))"
proof -
  obtain self self' s where
    init: "WorkoutPlan ''goku'' 3 ''beginner'' ''strength'' ''gym'' = Inr self"
    and gen: "generate (\<lambda>k. k) self 1 = Inr (self', s)"
    and all: "\<forall>p\<in>set s.
         distinct (map item_group (items p)) \<and>
         (\<forall>it\<in>set (items p).
            \<exists>ex\<in>set EXERCISES.
              exercise_by_id (exercise_id it) = Some ex \<and> ex_id ex = exercise_id it \<and>
              item_group it = Some (ex_group ex) \<and>
              ex_group ex \<in> set (focus_groups (focus p)))"
    using day_groups [of "''goku''" 3 "''beginner''" "''strength''" "''gym''" "\<lambda>k. k" 1,
        THEN conjunct1]
    by blast
  have "case WorkoutPlan ''goku'' 3 ''beginner'' ''strength'' ''gym'' of
          Inl e \<Rightarrow> False
        | Inr p \<Rightarrow>
            (case generate (\<lambda>k. k) p 1 of
               Inl e \<Rightarrow> False
             | Inr (p', s) \<Rightarrow>
                 s \<noteq> [] \<and> focus (hd s) = ''push'' \<and> length (items (hd s)) = 3 \<and>
                 item_group (hd (items (hd s))) = Some ''chest'')"
    by code_simp
  then have ev: "s \<noteq> []" "focus (hd s) = ''push''" "length (items (hd s)) = 3"
    "item_group (hd (items (hd s))) = Some ''chest''"
    using init gen by simp_all
  have "items (hd s) \<noteq> []" using ev(3) by auto
  then have mem: "hd s \<in> set s" "hd (items (hd s)) \<in> set (items (hd s))" using ev(1) by simp_all
  have day: "distinct (map item_group (items (hd s))) \<and>
         (\<forall>it\<in>set (items (hd s)).
            \<exists>ex\<in>set EXERCISES.
              exercise_by_id (exercise_id it) = Some ex \<and> ex_id ex = exercise_id it \<and>
              item_group it = Some (ex_group ex) \<and>
              ex_group ex \<in> set (focus_groups (focus (hd s))))"
    using all mem(1) by (rule bspec)
  then have dist: "distinct (map item_group (items (hd s)))" by (rule conjunct1)
  have "\<exists>ex\<in>set EXERCISES.
              exercise_by_id (exercise_id (hd (items (hd s)))) = Some ex \<and>
              ex_id ex = exercise_id (hd (items (hd s))) \<and>
              item_group (hd (items (hd s))) = Some (ex_group ex) \<and>
              ex_group ex \<in> set (focus_groups (focus (hd s)))"
    using day [THEN conjunct2] mem(2) by (rule bspec)
  then obtain ex :: exercise where "item_group (hd (items (hd s))) = Some (ex_group ex)"
    "ex_group ex \<in> set (focus_groups (focus (hd s)))"
    by blast
  then have "''chest'' \<in> set (focus_groups (focus (hd s)))" using ev(4) by simp
  then show ?thesis using init gen ev dist by blast
qed

subsection \<open>The template\<close>

text \<open>
  C4. For a character that is not in \<open>CHAR_ARCH\<close> the generator is built without an
  error, its day count is the request's clamped into 1..6, and its template is three
  full days when that count is at most 3 (whatever the count), push, legs, pull, full
  when it is 4, push, pull, legs, full, full when it is 5, and push, pull, legs twice
  when it is 6.
\<close>

theorem fallback_template:
  assumes "map_of CHAR_ARCH cid = None"
  shows "\<exists>self.
     WorkoutPlan cid dpw lvl gl eq = Inr self \<and>
     days self = max 1 (min 6 dpw) \<and> 1 \<le> days self \<and> days self \<le> 6 \<and>
     (days self \<le> 3 \<longrightarrow> template self = [''full'', ''full'', ''full'']) \<and>
     (days self = 4 \<longrightarrow> template self = [''push'', ''legs'', ''pull'', ''full'']) \<and>
     (days self = 5 \<longrightarrow> template self = [''push'', ''pull'', ''legs'', ''full'', ''full'']) \<and>
     (days self = 6 \<longrightarrow>
        template self = [''push'', ''pull'', ''legs'', ''push'', ''pull'', ''legs''])"
proof -
  obtain self where self: "WorkoutPlan cid dpw lvl gl eq = Inr self"
    using WorkoutPlan_total by blast
  have d: "days self = max 1 (min 6 dpw)" using WorkoutPlan_well_formed(3) [OF self] .
  have "make_template cid (days self) = Inr (template self)"
    using WorkoutPlan_well_formed(8) [OF self] d by simp
  then have t: "template self =
           (if days self \<le> 3 then [''full'', ''full'', ''full'']
            else if days self = 4 then [''push'', ''legs'', ''pull'', ''full'']
            else if days self = 5 then [''push'', ''pull'', ''legs'', ''full'', ''full'']
            else [''push'', ''pull'', ''legs'', ''push'', ''pull'', ''legs''])"
    by (simp add: make_template_unknown [OF assms])
  have "1 \<le> days self" "days self \<le> 6" using d by simp_all
  then show ?thesis using self d t by auto
qed

text \<open>A character nobody knows, two days a week: three full days.\<close>

theorem fallback_template_witness:
  "map_of CHAR_ARCH ''nobody'' = None \<and>
   (\<exists>self. WorkoutPlan ''nobody'' 2 ''beginner'' ''athletic'' ''gym'' = Inr self \<and>
      days self = 2 \<and> template self = [''full'', ''full'', ''full''])"
proof -
  have unknown: "map_of CHAR_ARCH ''nobody'' = None" by (simp add: CHAR_ARCH_def)
  obtain self where
    init: "WorkoutPlan ''nobody'' 2 ''beginner'' ''athletic'' ''gym'' = Inr self"
    and d: "days self = max 1 (min 6 2)"
    and t: "days self \<le> 3 \<longrightarrow> template self = [''full'', ''full'', ''full'']"
    using fallback_template [OF unknown, of 2 "''beginner''" "''athletic''" "''gym''"] by blast
  have "days self = 2" using d by simp
  then show ?thesis using unknown init t by auto
qed

text \<open>
  C5. The day count of a generator is the request's clamped into 1..6. For a character
  of \<open>CHAR_ARCH\<close> the template is the first entries of the archetype's template when
  that has at least as many entries as the day count, and otherwise the archetype's
  template followed by copies of its last focus; either way it has as many entries as
  the day count. For any character, a request for more than 6 days gives a template of
  6 entries.
\<close>

theorem known_template:
  "\<exists>self.
     WorkoutPlan cid dpw lvl gl eq = Inr self \<and>
     days self = max 1 (min 6 dpw) \<and> 1 \<le> days self \<and> days self \<le> 6 \<and>
     (6 < dpw \<longrightarrow> length (template self) = 6) \<and>
     (\<forall>a. map_of CHAR_ARCH cid = Some a \<longrightarrow>
        int (length (template self)) = days self \<and>
        template self =
          (if nat (days self) \<le> length (arch_template a)
           then take (nat (days self)) (arch_template a)
           else arch_template a @
                replicate (nat (days self) - length (arch_template a)) (last (arch_template a))))"
proof -
  obtain self where self: "WorkoutPlan cid dpw lvl gl eq = Inr self"
    using WorkoutPlan_total by blast
  have d: "days self = max 1 (min 6 dpw)" using WorkoutPlan_well_formed(3) [OF self] .
  have range: "1 \<le> days self" "days self \<le> 6" using d by simp_all
  have mk: "make_template cid (days self) = Inr (template self)"
    using WorkoutPlan_well_formed(8) [OF self] d by simp
  have known: "int (length (template self)) = days self \<and>
        template self =
          (if nat (days self) \<le> length (arch_template a)
           then take (nat (days self)) (arch_template a)
           else arch_template a @
                replicate (nat (days self) - length (arch_template a)) (last (arch_template a)))"
    if a: "map_of CHAR_ARCH cid = Some a" for a
  proof -
    have t: "template self =
          (if nat (days self) \<le> length (arch_template a)
           then take (nat (days self)) (arch_template a)
           else arch_template a @
                replicate (nat (days self) - length (arch_template a)) (last (arch_template a)))"
      using mk make_template_known [OF a range(1)] by simp
    have "length (template self) = nat (days self)"
      unfolding t by (simp add: min_def)
    then show ?thesis using t range by simp
  qed
  have "length (template self) = 6" if big: "6 < dpw"
  proof (cases "map_of CHAR_ARCH cid")
    case None
    have "days self = 6" using d big by simp
    then have "template self = [''push'', ''pull'', ''legs'', ''push'', ''pull'', ''legs'']"
      using mk by (simp add: make_template_unknown [OF None])
    then show ?thesis by simp
  next
    case (Some a)
    have "days self = 6" using d big by simp
    then show ?thesis using known [OF Some] by simp
  qed
  then show ?thesis using self d range known by blast
qed

text \<open>
  Saitama's template has three entries: nine days a week are clamped to six, and the
  template is padded with the last focus; two days a week take the first two entries.
\<close>

theorem known_template_witness:
  "(\<exists>self. WorkoutPlan ''saitama'' 9 ''beginner'' ''strength'' ''gym'' = Inr self \<and>
      days self = 6 \<and> length (template self) = 6 \<and>
      template self = [''full'', ''full'', ''full'', ''full'', ''full'', ''full'']) \<and>
   (\<exists>self. WorkoutPlan ''goku'' 2 ''beginner'' ''strength'' ''gym'' = Inr self \<and>
      days self = 2 \<and> template self = [''push'', ''pull''])"
proof -
  have saitama: "map_of CHAR_ARCH ''saitama'' =
      Some \<lparr>arch_style = ''full-body'', arch_template = [''full'', ''full'', ''full''],
            arch_sets = 3, arch_reps = 10\<rparr>"
    by (simp add: CHAR_ARCH_def)
  have goku: "map_of CHAR_ARCH ''goku'' =
      Some \<lparr>arch_style = ''power'', arch_template = [''push'', ''pull'', ''legs'', ''full'', ''full''],
            arch_sets = 4, arch_reps = 5\<rparr>"
    by (simp add: CHAR_ARCH_def)
  obtain self where
    init: "WorkoutPlan ''saitama'' 9 ''beginner'' ''strength'' ''gym'' = Inr self"
    and d: "days self = max 1 (min 6 9)"
    and big: "(6::int) < 9 \<longrightarrow> length (template self) = 6"
    and known: "\<forall>a. map_of CHAR_ARCH ''saitama'' = Some a \<longrightarrow>
        int (length (template self)) = days self \<and>
        template self =
          (if nat (days self) \<le> length (arch_template a)
           then take (nat (days self)) (arch_template a)
           else arch_template a @
                replicate (nat (days self) - length (arch_template a)) (last (arch_template a)))"
    using known_template [of "''saitama''" 9 "''beginner''" "''strength''" "''gym''"] by blast
  have d6: "days self = 6" using d by simp
  have "template self = [''full'', ''full'', ''full'', ''full'', ''full'', ''full'']"
    using known saitama d6 by (simp add: eval_nat_numeral)
  then have A: "\<exists>self. WorkoutPlan ''saitama'' 9 ''beginner'' ''strength'' ''gym'' = Inr self \<and>
      days self = 6 \<and> length (template self) = 6 \<and>
      template self = [''full'', ''full'', ''full'', ''full'', ''full'', ''full'']"
    using init d6 big by auto
  obtain self2 where
    init2: "WorkoutPlan ''goku'' 2 ''beginner'' ''strength'' ''gym'' = Inr self2"
    and d2: "days self2 = max 1 (min 6 2)"
    and known2: "\<forall>a. map_of CHAR_ARCH ''goku'' = Some a \<longrightarrow>
        int (length (template self2)) = days self2 \<and>
        template self2 =
          (if nat (days self2) \<le> length (arch_template a)
           then take (nat (days self2)) (arch_template a)
           else arch_template a @
                replicate (nat (days self2) - length (arch_template a)) (last (arch_template a)))"
    using known_template [of "''goku''" 2 "''beginner''" "''strength''" "''gym''"] by blast
  have d22: "days self2 = 2" using d2 by simp
  have "template self2 = [''push'', ''pull'']"
    using known2 goku d22 by (simp add: eval_nat_numeral)
  then have B: "\<exists>self. WorkoutPlan ''goku'' 2 ''beginner'' ''strength'' ''gym'' = Inr self \<and>
      days self = 2 \<and> template self = [''push'', ''pull'']"
    using init2 d22 by auto
  show ?thesis using A B by (rule conjI)
qed

subsection \<open>No weeks\<close>

text \<open>
  C10. Asked for zero weeks or fewer, \<open>generate\<close> returns the empty schedule and raises
  nothing, and leaves the generator object as it was; so it does for a generator just
  built from any request.
\<close>

theorem no_weeks:
  assumes "n \<le> 0"
  shows "generate rng self n = Inr (self, []) \<and>
         (\<exists>new. WorkoutPlan cid dpw lvl gl eq = Inr new \<and> generate rng new n = Inr (new, []))"
proof -
  have empty: "[1..n] = []" using assms by simp
  have "generate rng p n = Inr (p, [])" for p
    by (simp add: generate_def empty)
  then show ?thesis using WorkoutPlan_total by metis
qed

text \<open>Goku asked for minus three weeks.\<close>

theorem no_weeks_witness:
  "(-3::int) \<le> 0 \<and>
   (\<exists>new. WorkoutPlan ''goku'' 3 ''beginner'' ''strength'' ''gym'' = Inr new \<and>
      generate (\<lambda>k. k) new (-3) = Inr (new, []))"
proof -
  have neg: "(-3::int) \<le> 0" by simp
  show ?thesis
    using no_weeks [OF neg, of "\<lambda>k. k" _ "''goku''" 3 "''beginner''" "''strength''" "''gym''"] neg
    by blast
qed

subsection \<open>Determinism\<close>

lemma groups_loop_mono:
  assumes "groups_loop rng ss rr cdi gs (self, k, its) = Inr (self', k', its')"
  shows "k \<le> k'"
  by (rule groups_loop_invariant [OF assms, where P = "\<lambda>s j i. k \<le> j"]) auto

lemma groups_loop_agree:
  assumes "groups_loop rng ss rr cdi gs (self, k, its) = Inr (self', k', its')"
    and "\<forall>j. k \<le> j \<and> j < k' \<longrightarrow> rng' j = rng j"
  shows "groups_loop rng' ss rr cdi gs (self, k, its) = Inr (self', k', its')"
  using assms
proof (induction gs arbitrary: self k its)
  case Nil
  then show ?case by simp
next
  case (Cons g gs)
  obtain lt where lt: "map_of (last_trained self) g = Some lt"
    using Cons.prems(1) by (auto simp: groups_loop_step split: option.splits)
  show ?case
  proof (cases "cdi - lt < 2 \<or> filtered self g = []")
    case True
    then have "groups_loop rng ss rr cdi gs (self, k, its) = Inr (self', k', its')"
      using Cons.prems(1) lt by (simp add: groups_loop_step)
    then have "groups_loop rng' ss rr cdi gs (self, k, its) = Inr (self', k', its')"
      using Cons.IH Cons.prems(2) by blast
    then show ?thesis using True lt by (simp add: groups_loop_step)
  next
    case False
    show ?thesis
    proof (cases "4 \<le> length its")
      case True
      then have res: "Inr (train g cdi self, Suc k, its @ [new_item rng ss rr self k g]) =
                   (Inr (self', k', its') :: py_error + workout_plan \<times> nat \<times> exercise_item list)"
        using Cons.prems(1) lt False by (simp add: groups_loop_step)
      then have "k < k'" by auto
      then have "rng' k = rng k" using Cons.prems(2) by simp
      then have "new_item rng' ss rr self k g = new_item rng ss rr self k g"
        by (simp add: new_item_def)
      then show ?thesis using res True lt False by (simp add: groups_loop_step)
    next
      case short: False
      then have rest: "groups_loop rng ss rr cdi gs
                   (train g cdi self, Suc k, its @ [new_item rng ss rr self k g]) = Inr (self', k', its')"
        using Cons.prems(1) lt False by (simp add: groups_loop_step)
      have "Suc k \<le> k'" using groups_loop_mono [OF rest] .
      then have "rng' k = rng k" using Cons.prems(2) by simp
      then have same: "new_item rng' ss rr self k g = new_item rng ss rr self k g"
        by (simp add: new_item_def)
      have "\<forall>j. Suc k \<le> j \<and> j < k' \<longrightarrow> rng' j = rng j" using Cons.prems(2) by simp
      then have "groups_loop rng' ss rr cdi gs
                   (train g cdi self, Suc k, its @ [new_item rng ss rr self k g]) = Inr (self', k', its')"
        using Cons.IH [OF rest] by blast
      then show ?thesis using short lt False same by (simp add: groups_loop_step)
    qed
  qed
qed

lemma build_day_draws:
  assumes "build_day rng ss rr w df st = Inr st'"
  shows "draws st \<le> draws st'"
    and "length (concat (map items (sched st'))) + draws st =
         length (concat (map items (sched st))) + draws st'"
proof -
  obtain self' its where
    st': "st' = \<lparr>self_of = self', draws = draws st + length its,
                  current_day_index = current_day_index st + 1,
                  sched = sched st @ [\<lparr>week = w, day_index = int (fst df), focus = snd df, items = its\<rparr>]\<rparr>"
    using build_day_summary [OF assms] by blast
  show "draws st \<le> draws st'" by (simp add: st')
  show "length (concat (map items (sched st'))) + draws st =
         length (concat (map items (sched st))) + draws st'"
    by (simp add: st')
qed

lemma build_day_agree:
  assumes "build_day rng ss rr w df st = Inr st'"
    and "\<forall>j. draws st \<le> j \<and> j < draws st' \<longrightarrow> rng' j = rng j"
  shows "build_day rng' ss rr w df st = Inr st'"
proof -
  obtain groups self' k' its where
    srt: "sort_groups (self_of st) (focus_groups (snd df)) = Inr groups"
    and loop: "groups_loop rng ss rr (current_day_index st) groups (self_of st, draws st, []) =
                 Inr (self', k', its)"
    and focus: "snd df \<in> set DayFocus"
    and st': "st' = \<lparr>self_of = self', draws = k', current_day_index = current_day_index st + 1,
                  sched = sched st @ [\<lparr>week = w, day_index = int (fst df), focus = snd df, items = its\<rparr>]\<rparr>"
    using build_day_Inr [OF assms(1)] by blast
  have "\<forall>j. draws st \<le> j \<and> j < k' \<longrightarrow> rng' j = rng j"
    using assms(2) by (simp add: st')
  then have "groups_loop rng' ss rr (current_day_index st) groups (self_of st, draws st, []) =
                 Inr (self', k', its)"
    using groups_loop_agree [OF loop] by blast
  then show ?thesis using srt focus st' by (simp add: build_day_def DayPlan_def)
qed

lemma days_loop_mono:
  assumes "days_loop rng ss rr w dfs st = Inr st'"
  shows "draws st \<le> draws st'"
  by (rule days_loop_invariant [OF assms, where Q = "\<lambda>s. draws st \<le> draws s"])
     (use build_day_draws(1) in \<open>auto intro: order_trans\<close>)

lemma days_loop_agree:
  assumes "days_loop rng ss rr w dfs st = Inr st'"
    and "\<forall>j. draws st \<le> j \<and> j < draws st' \<longrightarrow> rng' j = rng j"
  shows "days_loop rng' ss rr w dfs st = Inr st'"
  using assms
proof (induction dfs arbitrary: st)
  case Nil
  then show ?case by simp
next
  case (Cons df dfs)
  from Cons.prems(1) obtain st1 where day: "build_day rng ss rr w df st = Inr st1"
    and rest: "days_loop rng ss rr w dfs st1 = Inr st'"
    by (auto split: sum.splits)
  have le1: "draws st \<le> draws st1" using build_day_draws(1) [OF day] .
  have le2: "draws st1 \<le> draws st'" using days_loop_mono [OF rest] .
  have "\<forall>j. draws st \<le> j \<and> j < draws st1 \<longrightarrow> rng' j = rng j"
    using Cons.prems(2) le2 by auto
  then have day': "build_day rng' ss rr w df st = Inr st1"
    using build_day_agree [OF day] by blast
  have "\<forall>j. draws st1 \<le> j \<and> j < draws st' \<longrightarrow> rng' j = rng j"
    using Cons.prems(2) le1 by auto
  then have "days_loop rng' ss rr w dfs st1 = Inr st'"
    using Cons.IH [OF rest] by blast
  then show ?case using day' by simp
qed

lemma weeks_loop_mono:
  assumes "weeks_loop rng ss rr ws st = Inr st'"
  shows "draws st \<le> draws st'"
  by (rule weeks_loop_invariant [OF assms, where Q = "\<lambda>s. draws st \<le> draws s"])
     (use build_day_draws(1) in \<open>auto intro: order_trans\<close>)

lemma weeks_loop_agree:
  assumes "weeks_loop rng ss rr ws st = Inr st'"
    and "\<forall>j. draws st \<le> j \<and> j < draws st' \<longrightarrow> rng' j = rng j"
  shows "weeks_loop rng' ss rr ws st = Inr st'"
  using assms
proof (induction ws arbitrary: st)
  case Nil
  then show ?case by simp
next
  case (Cons w ws)
  from Cons.prems(1) obtain st1 where
    week: "days_loop rng ss rr w (enumerate 0 (template (self_of st))) st = Inr st1"
    and rest: "weeks_loop rng ss rr ws st1 = Inr st'"
    by (auto split: sum.splits)
  have le1: "draws st \<le> draws st1" using days_loop_mono [OF week] .
  have le2: "draws st1 \<le> draws st'" using weeks_loop_mono [OF rest] .
  have "\<forall>j. draws st \<le> j \<and> j < draws st1 \<longrightarrow> rng' j = rng j"
    using Cons.prems(2) le2 by auto
  then have week': "days_loop rng' ss rr w (enumerate 0 (template (self_of st))) st = Inr st1"
    using days_loop_agree [OF week] by blast
  have "\<forall>j. draws st1 \<le> j \<and> j < draws st' \<longrightarrow> rng' j = rng j"
    using Cons.prems(2) le1 by auto
  then have "weeks_loop rng' ss rr ws st1 = Inr st'"
    using Cons.IH [OF rest] by blast
  then show ?case using week' by simp
qed

lemma generate_agree:
  assumes "generate rng self n = Inr (self', s)"
    and "\<forall>j<length (concat (map items s)). rng' j = rng j"
  shows "generate rng' self n = Inr (self', s)"
proof -
  let ?ss = "fst (sets_reps self)" and ?rr = "snd (sets_reps self)"
  let ?st = "\<lparr>self_of = self, draws = 0, current_day_index = 0, sched = []\<rparr>"
  obtain st' where loop: "weeks_loop rng ?ss ?rr [1..n] ?st = Inr st'"
    and st': "self_of st' = self'" "sched st' = s"
    using generate_Inr [OF assms(1)] by blast
  have "draws st' = length (concat (map items (sched st')))"
  proof (rule weeks_loop_invariant [OF loop,
          where Q = "\<lambda>s::gen_state. draws s = length (concat (map items (sched s)))"], goal_cases)
    case 1
    then show ?case by simp
  next
    case (2 w df st1 st2)
    then show ?case using build_day_draws(2) [OF 2(2)] by simp
  qed
  then have "\<forall>j. draws ?st \<le> j \<and> j < draws st' \<longrightarrow> rng' j = rng j"
    using assms(2) st'(2) by simp
  then have "weeks_loop rng' ?ss ?rr [1..n] ?st = Inr st'"
    using weeks_loop_agree [OF loop] by blast
  then show ?thesis using st' by (simp add: generate_def)
qed

text \<open>
  C8. The random source is the only input of \<open>generate\<close> besides the generator object
  and the number of weeks, and the generator object is built from the request alone. So
  two runs on the same request with the same random source return the same schedule;
  the schedule depends on the source only through the draws the run makes, one for each
  item: a source that agrees with the first on that many draws gives the same result.
\<close>

theorem determinism:
  "\<exists>self self' s.
     WorkoutPlan cid dpw lvl gl eq = Inr self \<and> generate rng self n = Inr (self', s) \<and>
     (\<forall>rng'. (\<forall>j<length (concat (map items s)). rng' j = rng j) \<longrightarrow>
        generate rng' self n = Inr (self', s))"
proof -
  obtain self self' s where run: "WorkoutPlan cid dpw lvl gl eq = Inr self"
    "generate rng self n = Inr (self', s)"
    using run_total by blast
  have "\<forall>rng'. (\<forall>j<length (concat (map items s)). rng' j = rng j) \<longrightarrow>
        generate rng' self n = Inr (self', s)"
    using generate_agree [OF run(2)] by blast
  then show ?thesis using run by blast
qed

text \<open>
  Goku in the gym, three days of one week: the run makes six draws, and a source that
  differs from the seventh draw on gives the same schedule.
\<close>

theorem determinism_witness:
  "\<exists>self self' s.
     WorkoutPlan ''goku'' 3 ''beginner'' ''strength'' ''gym'' = Inr self \<and>
     generate (\<lambda>k. k) self 1 = Inr (self', s) \<and>
     length (concat (map items s)) = 6 \<and>
     generate (\<lambda>k. if k < 6 then k else 0) self 1 = Inr (self', s)"
proof -
  obtain self self' s where
    init: "WorkoutPlan ''goku'' 3 ''beginner'' ''strength'' ''gym'' = Inr self"
    and gen: "generate (\<lambda>k. k) self 1 = Inr (self', s)"
    and same: "\<forall>rng'. (\<forall>j<length (concat (map items s)). rng' j = j) \<longrightarrow>
        generate rng' self 1 = Inr (self', s)"
    using determinism [of "''goku''" 3 "''beginner''" "''strength''" "''gym''" "\<lambda>k. k" 1]
    by blast
  have "case WorkoutPlan ''goku'' 3 ''beginner'' ''strength'' ''gym'' of
          Inl e \<Rightarrow> False
        | Inr p \<Rightarrow>
            (case generate (\<lambda>k. k) p 1 of
               Inl e \<Rightarrow> False
             | Inr (p', s) \<Rightarrow> length (concat (map items s)) = 6)"
    by code_simp
  then have len: "length (concat (map items s)) = 6" using init gen by simp
  have "\<forall>j<length (concat (map items s)). (if j < 6 then j else 0) = j"
    using len by simp
  then have "generate (\<lambda>k. if k < 6 then k else 0) self 1 = Inr (self', s)"
    using same [rule_format, of "\<lambda>k. if k < 6 then k else 0"] by simp
  with init gen len show ?thesis by (intro exI conjI)
qed

end
